theory Spec2Isabelle
  imports Complex_Main
begin

section \<open>JavaScript strings\<close>

text \<open>
  A JavaScript string is a sequence of UTF-16 code units; a code unit is modelled by its
  number. \<open>js\<close> turns an ASCII literal of the source into such a sequence.
\<close>

type_synonym jsstring = "nat list"

definition js :: "string \<Rightarrow> jsstring" where
  "js s = map of_char s"

text \<open>
  The code units matched by \<^verbatim>\<open>\s\<close> and stripped by \<^verbatim>\<open>String.prototype.trim\<close>:
  WhiteSpace and LineTerminator of ECMAScript (TAB, LF, VT, FF, CR, SP, NBSP, U+1680,
  U+2000..U+200A, U+2028, U+2029, U+202F, U+205F, U+3000, U+FEFF).
\<close>

definition is_space :: "nat \<Rightarrow> bool" where
  "is_space c \<longleftrightarrow>
     c = 9 \<or> c = 10 \<or> c = 11 \<or> c = 12 \<or> c = 13 \<or> c = 32 \<or> c = 160 \<or> c = 5760 \<or>
     (8192 \<le> c \<and> c \<le> 8202) \<or> c = 8232 \<or> c = 8233 \<or> c = 8239 \<or> c = 8287 \<or>
     c = 12288 \<or> c = 65279"

definition is_digit :: "nat \<Rightarrow> bool" where
  "is_digit c \<longleftrightarrow> 48 \<le> c \<and> c \<le> 57"

definition is_upper :: "nat \<Rightarrow> bool" where
  "is_upper c \<longleftrightarrow> 65 \<le> c \<and> c \<le> 90"

definition is_lower :: "nat \<Rightarrow> bool" where
  "is_lower c \<longleftrightarrow> 97 \<le> c \<and> c \<le> 122"

text \<open>\<^verbatim>\<open>\w\<close> without the unicode flag: \<^verbatim>\<open>[A-Za-z0-9_]\<close>.\<close>

definition is_word :: "nat \<Rightarrow> bool" where
  "is_word c \<longleftrightarrow> is_upper c \<or> is_lower c \<or> is_digit c \<or> c = 95"

text \<open>
  Canonicalize of a regular expression with the \<^verbatim>\<open>i\<close> flag and without the \<^verbatim>\<open>u\<close> flag
  maps a code unit to its upper case, except that a code unit from 128 on is never mapped
  below 128. Every pattern character of this program is ASCII, so for the comparison with
  a pattern character only the folding of \<^verbatim>\<open>a-z\<close> matters; other code units are left as
  they are.
\<close>

definition canon :: "nat \<Rightarrow> nat" where
  "canon c = (if is_lower c then c - 32 else c)"

definition trim :: "jsstring \<Rightarrow> jsstring" where
  "trim s = rev (dropWhile is_space (rev (dropWhile is_space s)))"

section \<open>Regular expressions as the source writes them\<close>

text \<open>
  The constructs that occur in the regular expression literals of \<^verbatim>\<open>sqlSafety.js\<close>:
  literal characters, the classes \<^verbatim>\<open>\s \d \w\<close> and bracket ranges, sequence, alternation,
  the greedy star, \<^verbatim>\<open>^\<close>, \<^verbatim>\<open>\b\<close> and a capturing group.
\<close>

datatype cclass = Space | Digit | WordC | Range nat nat

datatype regex =
    Eps
  | Lit nat
  | Cls "cclass list"
  | Seq regex regex
  | Alt regex regex
  | Star regex
  | Bol
  | WordB
  | Group regex

fun in_class :: "cclass \<Rightarrow> nat \<Rightarrow> bool" where
  "in_class Space c = is_space c"
| "in_class Digit c = is_digit c"
| "in_class WordC c = is_word c"
| "in_class (Range lo hi) c = (lo \<le> c \<and> c \<le> hi)"

definition chr_eq :: "bool \<Rightarrow> nat \<Rightarrow> nat \<Rightarrow> bool" where
  "chr_eq ic p x = (if ic then canon p = canon x else p = x)"

text \<open>
  A matcher state: the code unit before the current position (\<open>None\<close> at the start of
  the input), the input that remains, and the text of capture group 1.
\<close>

type_synonym mstate = "nat option \<times> jsstring \<times> jsstring option"

definition word_before :: "nat option \<Rightarrow> bool" where
  "word_before p = (case p of None \<Rightarrow> False | Some c \<Rightarrow> is_word c)"

definition word_next :: "jsstring \<Rightarrow> bool" where
  "word_next xs = (case xs of [] \<Rightarrow> False | x # _ \<Rightarrow> is_word x)"

text \<open>
  The greedy star of the backtracking matcher: one more iteration first, the empty
  continuation last; an iteration that consumes nothing is rejected (RepeatMatcher).
\<close>

function star :: "(mstate \<Rightarrow> mstate list) \<Rightarrow> mstate \<Rightarrow> mstate list" where
  "star f st =
     concat (map (\<lambda>st'. if length (fst (snd st')) < length (fst (snd st)) then star f st' else [])
                 (f st)) @ [st]"
  by pat_completeness auto
termination
  by (relation "measure (\<lambda>(f, st). length (fst (snd st)))") auto

declare star.simps [simp del]

text \<open>
  \<open>ms ic r st\<close> lists the states in which a match of \<open>r\<close> started in \<open>st\<close> can end, in the
  order in which the backtracking matcher of ECMAScript tries them; \<open>ic\<close> is the \<^verbatim>\<open>i\<close> flag.
\<close>

fun ms :: "bool \<Rightarrow> regex \<Rightarrow> mstate \<Rightarrow> mstate list" where
  "ms ic Eps st = [st]"
| "ms ic (Lit c) (p, xs, cap) =
     (case xs of [] \<Rightarrow> []
      | x # xs' \<Rightarrow> if chr_eq ic c x then [(Some x, xs', cap)] else [])"
| "ms ic (Cls cs) (p, xs, cap) =
     (case xs of [] \<Rightarrow> []
      | x # xs' \<Rightarrow> if list_ex (\<lambda>k. in_class k x) cs then [(Some x, xs', cap)] else [])"
| "ms ic (Seq a b) st = concat (map (ms ic b) (ms ic a st))"
| "ms ic (Alt a b) st = ms ic a st @ ms ic b st"
| "ms ic (Star a) st = star (ms ic a) st"
| "ms ic Bol (p, xs, cap) = (if p = None then [(p, xs, cap)] else [])"
| "ms ic WordB (p, xs, cap) =
     (if word_before p \<noteq> word_next xs then [(p, xs, cap)] else [])"
| "ms ic (Group a) (p, xs, cap) =
     map (\<lambda>(p', xs', _). (p', xs', Some (take (length xs - length xs') xs)))
         (ms ic a (p, xs, cap))"

fun seqs :: "regex list \<Rightarrow> regex" where
  "seqs [] = Eps"
| "seqs (r # rs) = Seq r (seqs rs)"

fun alts :: "regex list \<Rightarrow> regex" where
  "alts [] = Eps"
| "alts [r] = r"
| "alts (r # rs) = Alt r (alts rs)"

definition lits :: "jsstring \<Rightarrow> regex" where
  "lits w = seqs (map Lit w)"

definition rplus :: "regex \<Rightarrow> regex" where
  "rplus r = Seq r (Star r)"

text \<open>
  The leftmost match from a position on (RegExpBuiltinExec without the sticky flag): the
  text skipped before the match and the end state the matcher prefers.
\<close>

fun exec :: "bool \<Rightarrow> regex \<Rightarrow> nat option \<Rightarrow> jsstring \<Rightarrow> (jsstring \<times> mstate) option" where
  "exec ic r p [] =
     (case ms ic r (p, [], None) of [] \<Rightarrow> None | st # _ \<Rightarrow> Some ([], st))"
| "exec ic r p (x # xs) =
     (case ms ic r (p, x # xs, None) of
        st # _ \<Rightarrow> Some ([], st)
      | [] \<Rightarrow> map_option (\<lambda>(pre, st). (x # pre, st)) (exec ic r (Some x) xs))"

definition test :: "bool \<Rightarrow> regex \<Rightarrow> jsstring \<Rightarrow> bool" where
  "test ic r s \<longleftrightarrow> exec ic r None s \<noteq> None"

definition cap_text :: "jsstring option \<Rightarrow> jsstring" where
  "cap_text cap = (case cap of None \<Rightarrow> [] | Some t \<Rightarrow> t)"

text \<open>
  \<^verbatim>\<open>String.prototype.replace\<close> with a regular expression without the \<^verbatim>\<open>g\<close> flag: the
  first match is replaced; \<open>f\<close> builds the replacement from the text of \<^verbatim>\<open>$1\<close>.
\<close>

definition replace_first ::
  "bool \<Rightarrow> regex \<Rightarrow> (jsstring \<Rightarrow> jsstring) \<Rightarrow> jsstring \<Rightarrow> jsstring" where
  "replace_first ic r f s =
     (case exec ic r None s of
        None \<Rightarrow> s
      | Some (pre, (p', rest, cap)) \<Rightarrow> pre @ f (cap_text cap) @ rest)"

text \<open>
  With the \<^verbatim>\<open>g\<close> flag every match is replaced, each search starting where the match
  before ended; after an empty match the search advances by one code unit.
\<close>

function replace_all ::
  "bool \<Rightarrow> regex \<Rightarrow> (jsstring \<Rightarrow> jsstring) \<Rightarrow> nat option \<Rightarrow> jsstring \<Rightarrow> jsstring" where
  "replace_all ic r f p s =
     (case exec ic r p s of
        None \<Rightarrow> s
      | Some (pre, (p', rest, cap)) \<Rightarrow>
          pre @ f (cap_text cap) @
          (if length rest < length s - length pre then replace_all ic r f p' rest
           else (case drop (length pre) s of
                   [] \<Rightarrow> []
                 | x # xs \<Rightarrow> x # replace_all ic r f (Some x) xs)))"
  by pat_completeness auto
termination
proof (relation "measure (\<lambda>(ic, r, f, p, s). length s)", goal_cases)
  case 1
  show ?case by simp
next
  case (2 ic r f p s x2 pre st p' x2a rest cap)
  then show ?case by simp
next
  case (3 ic r f p s x2 pre st p' x2a rest cap x xs)
  from 3 have "length (drop (length pre) s) = Suc (length xs)" by simp
  then have "length xs < length s" by simp
  then show ?case by simp
qed

declare replace_all.simps [simp del]

section \<open>JavaScript values\<close>

text \<open>
  A Number is NaN, an infinity or a finite value; a finite double is a rational number, so
  the finite values are modelled by \<open>rat\<close> (every statement about all rationals holds
  for all doubles).
\<close>

datatype jsnum = NaN | PInf | NInf | Fin rat

text \<open>
  The values the functions receive. A Date and any other object (array, plain object, ...)
  is carried with the result of its string conversion, the only thing the code asks of it.
\<close>

datatype jsval =
    JUndefined
  | JNull
  | JBool bool
  | JNum jsnum
  | JStr jsstring
  | JDate jsstring
  | JObj jsstring

datatype jstype = TUndefined | TObject | TBoolean | TNumber | TString

fun typeof :: "jsval \<Rightarrow> jstype" where
  "typeof JUndefined = TUndefined"
| "typeof JNull = TObject"
| "typeof (JBool b) = TBoolean"
| "typeof (JNum n) = TNumber"
| "typeof (JStr s) = TString"
| "typeof (JDate s) = TObject"
| "typeof (JObj s) = TObject"

fun isInteger :: "jsval \<Rightarrow> bool" where
  "isInteger (JNum (Fin q)) = (of_int \<lfloor>q\<rfloor> = q)"
| "isInteger v = False"

fun instanceof_Date :: "jsval \<Rightarrow> bool" where
  "instanceof_Date (JDate s) = True"
| "instanceof_Date v = False"

fun truthy :: "jsval \<Rightarrow> bool" where
  "truthy JUndefined = False"
| "truthy JNull = False"
| "truthy (JBool b) = b"
| "truthy (JNum NaN) = False"
| "truthy (JNum (Fin q)) = (q \<noteq> 0)"
| "truthy (JNum n) = True"
| "truthy (JStr s) = (s \<noteq> [])"
| "truthy (JDate s) = True"
| "truthy (JObj s) = True"

definition js_or :: "jsval \<Rightarrow> jsval \<Rightarrow> jsval" where
  "js_or a b = (if truthy a then a else b)"

function nat_digits :: "nat \<Rightarrow> jsstring" where
  "nat_digits n = (if n < 10 then [48 + n] else nat_digits (n div 10) @ [48 + n mod 10])"
  by pat_completeness auto
termination
  by (relation "measure id") auto

declare nat_digits.simps [simp del]

definition int_to_string :: "int \<Rightarrow> jsstring" where
  "int_to_string i = (if i < 0 then 45 # nat_digits (nat (- i)) else nat_digits (nat i))"

text \<open>
  Number::toString. A finite integral value below \<open>10^21\<close> in magnitude prints as its
  decimal numeral. The digits of any other finite value follow from the shortest
  round-trip printing of doubles and are left unspecified here.
\<close>

fun num_to_string :: "jsnum \<Rightarrow> jsstring" where
  "num_to_string NaN = js ''NaN''"
| "num_to_string PInf = js ''Infinity''"
| "num_to_string NInf = js ''-Infinity''"
| "num_to_string (Fin q) =
     (if of_int \<lfloor>q\<rfloor> = q \<and> \<bar>q\<bar> < 10 ^ 21 then int_to_string \<lfloor>q\<rfloor> else undefined)"

fun to_string :: "jsval \<Rightarrow> jsstring" where
  "to_string JUndefined = js ''undefined''"
| "to_string JNull = js ''null''"
| "to_string (JBool b) = (if b then js ''true'' else js ''false'')"
| "to_string (JNum n) = num_to_string n"
| "to_string (JStr s) = s"
| "to_string (JDate s) = s"
| "to_string (JObj s) = s"

definition digits_value :: "jsstring \<Rightarrow> int" where
  "digits_value z = foldl (\<lambda>a d. 10 * a + (int d - 48)) 0 z"

text \<open>
  \<^verbatim>\<open>parseInt(v, 10)\<close>: string conversion, leading white space dropped, an optional sign,
  then the longest run of decimal digits; no digit gives NaN. The result is kept as the
  exact integer (the engine rounds it to a double).
\<close>

definition parseInt_str :: "jsstring \<Rightarrow> jsnum" where
  "parseInt_str s =
     (let t = dropWhile is_space s;
          neg = (t \<noteq> [] \<and> hd t = 45);
          u = (if t \<noteq> [] \<and> (hd t = 45 \<or> hd t = 43) then tl t else t);
          z = takeWhile is_digit u
      in if z = [] then NaN
         else Fin (of_int (if neg then - digits_value z else digits_value z)))"

definition parseInt :: "jsval \<Rightarrow> jsnum" where
  "parseInt v = parseInt_str (to_string v)"

fun num_le :: "jsnum \<Rightarrow> jsnum \<Rightarrow> bool" where
  "num_le NInf b = True"
| "num_le a PInf = True"
| "num_le (Fin x) (Fin y) = (x \<le> y)"
| "num_le a b = False"

definition math_min :: "jsnum \<Rightarrow> jsnum \<Rightarrow> jsnum" where
  "math_min a b = (if a = NaN \<or> b = NaN then NaN else if num_le a b then a else b)"

definition math_max :: "jsnum \<Rightarrow> jsnum \<Rightarrow> jsnum" where
  "math_max a b = (if a = NaN \<or> b = NaN then NaN else if num_le a b then b else a)"

section \<open>sqlSafety.js\<close>

datatype error = OnlySelectAllowed | ProhibitedFound

text \<open>\<^verbatim>\<open>/^select\s/i\<close>\<close>

definition re_select :: regex where
  "re_select = seqs [Bol, lits (js ''select''), Cls [Space]]"

definition banned_words :: "jsstring list" where
  "banned_words = map js [''delete'', ''insert'', ''update'', ''merge'', ''alter'', ''drop'',
     ''create'', ''grant'', ''revoke'', ''truncate'', ''exec'', ''execute'', ''xp_'', ''sp_'']"

text \<open>
  \<^verbatim>\<open>/\b(delete|insert|update|merge|alter|drop|create|grant|revoke|truncate|exec|execute|xp_|sp_)\b|;|--|\/\*/i\<close>
\<close>

definition re_banned :: regex where
  "re_banned = alts [seqs [WordB, Group (alts (map lits banned_words)), WordB],
                     Lit 59, lits (js ''--''), lits (js ''/*'')]"

definition validateSelectOnly :: "jsstring \<Rightarrow> error + jsstring" where
  "validateSelectOnly sql =
     (let s = trim sql
      in if \<not> test True re_select s then Inl OnlySelectAllowed
         else if test True re_banned s then Inl ProhibitedFound
         else Inr s)"

text \<open>\<^verbatim>\<open>/\bselect\s+top\s*(\(|\d)/i\<close>\<close>

definition re_has_top :: regex where
  "re_has_top = seqs [WordB, lits (js ''select''), rplus (Cls [Space]), lits (js ''top''),
                      Star (Cls [Space]), Group (Alt (Lit 40) (Cls [Digit]))]"

text \<open>\<^verbatim>\<open>/^(\s*select\s+)/i\<close>\<close>

definition re_lead :: regex where
  "re_lead = seqs [Bol, Group (seqs [Star (Cls [Space]), lits (js ''select''), rplus (Cls [Space])])]"

definition injectTopLimit :: "jsstring \<Rightarrow> jsnum \<Rightarrow> jsstring" where
  "injectTopLimit sql n =
     (let hasTop = test True re_has_top sql
      in if hasTop then sql
         else replace_first True re_lead
                (\<lambda>g1. g1 @ js ''TOP('' @ num_to_string n @ js '') '') sql)"

text \<open>\<^verbatim>\<open>/:([A-Za-z_]\w*)/g\<close>, replaced by \<^verbatim>\<open>'@$1'\<close>\<close>

definition re_param :: regex where
  "re_param = seqs [Lit 58, Group (seqs [Cls [Range 65 90, Range 97 122, Range 95 95],
                                          Star (Cls [WordC])])]"

definition toTediousNamedParams :: "jsstring \<Rightarrow> jsstring" where
  "toTediousNamedParams sql = replace_all False re_param (\<lambda>g1. 64 # g1) None sql"

section \<open>sqlQuery.js: the row limit and the statement that is sent\<close>

text \<open>
  \<^verbatim>\<open>ROW_LIMIT_DEFAULT = parseInt(process.env.ROW_LIMIT_DEFAULT || '200', 10)\<close>; the
  environment variable is a string or absent.
\<close>

definition ROW_LIMIT_DEFAULT :: "jsstring option \<Rightarrow> jsnum" where
  "ROW_LIMIT_DEFAULT env =
     parseInt (js_or (case env of None \<Rightarrow> JUndefined | Some e \<Rightarrow> JStr e) (JStr (js ''200'')))"

text \<open>
  \<^verbatim>\<open>limit = Math.max(1, Math.min(parseInt(row_limit || ROW_LIMIT_DEFAULT, 10), 5000))\<close>;
  \<open>row_limit\<close> is \<open>JUndefined\<close> when the body has no such field.
\<close>

definition effective_limit :: "jsstring option \<Rightarrow> jsval \<Rightarrow> jsnum" where
  "effective_limit env row_limit =
     math_max (Fin 1)
       (math_min (parseInt (js_or row_limit (JNum (ROW_LIMIT_DEFAULT env)))) (Fin 5000))"

text \<open>Lines 22 to 24 of the handler: the statement handed to \<^verbatim>\<open>runQuery\<close>.\<close>

definition prepare :: "jsstring \<Rightarrow> jsnum \<Rightarrow> error + jsstring" where
  "prepare sql limit =
     (case validateSelectOnly sql of
        Inl e \<Rightarrow> Inl e
      | Inr s \<Rightarrow> Inr (toTediousNamedParams (injectTopLimit s limit)))"

section \<open>db.js: the binding loop of runQuery\<close>

datatype sqltype = SqlInt | SqlFloat | SqlDateTime2 | SqlBit | SqlNVarCharMax

text \<open>One call \<^verbatim>\<open>request.input(k, type, value)\<close>.\<close>

type_synonym binding = "jsstring \<times> sqltype \<times> jsval"

text \<open>
  The loop over \<^verbatim>\<open>Object.entries(params)\<close>; the second argument is the list of the
  inputs the request has received so far.
\<close>

fun bind_params :: "(jsstring \<times> jsval) list \<Rightarrow> binding list \<Rightarrow> binding list" where
  "bind_params [] request = request"
| "bind_params ((k, v) # es) request =
     (if v = JNull \<or> v = JUndefined then bind_params es request
      else let t = typeof v in
        if t = TNumber \<and> isInteger v then bind_params es (request @ [(k, SqlInt, v)])
        else if t = TNumber then bind_params es (request @ [(k, SqlFloat, v)])
        else if instanceof_Date v then bind_params es (request @ [(k, SqlDateTime2, v)])
        else if t = TBoolean then bind_params es (request @ [(k, SqlBit, v)])
        else bind_params es (request @ [(k, SqlNVarCharMax, JStr (to_string v))]))"

section \<open>schemaHelpers.js\<close>

text \<open>\<^verbatim>\<open>s.includes(w)\<close>\<close>

fun js_includes :: "jsstring \<Rightarrow> jsstring \<Rightarrow> bool" where
  "js_includes [] w = (w = [])"
| "js_includes (x # xs) w = (take (length w) (x # xs) = w \<or> js_includes xs w)"

record fk =
  fk_column :: jsstring
  fk_ref_table :: jsstring
  fk_ref_column :: jsstring

record sample =
  s_description :: jsstring
  s_template :: jsstring

text \<open>
  The static description tables, looked up by the own properties of the object literals
  (a name that \<^verbatim>\<open>Object.prototype\<close> defines, such as \<^verbatim>\<open>constructor\<close>, is not modelled).
\<close>

definition getTableDescription :: "jsstring \<Rightarrow> jsstring" where
  "getTableDescription tableName =
     (case map_of
        [(js ''vwUsers'', js ''User accounts with registration dates and basic info''),
         (js ''vwOrders'', js ''Customer orders with amounts and statuses''),
         (js ''vwProducts'', js ''Product catalog with pricing and categories'')] tableName of
        None \<Rightarrow> [] | Some d \<Rightarrow> d)"

definition getColumnDescription :: "jsstring \<Rightarrow> jsstring \<Rightarrow> jsstring" where
  "getColumnDescription tableName columnName =
     (case map_of
        [(js ''vwUsers'',
          [(js ''UserId'', js ''Unique identifier for each user''),
           (js ''CreatedAt'', js ''UTC timestamp when user registered''),
           (js ''Country'', js ''User country code (ISO 2-letter)''),
           (js ''IsActive'', js ''Whether user account is active'')])] tableName of
        None \<Rightarrow> []
      | Some cols \<Rightarrow> (case map_of cols columnName of None \<Rightarrow> [] | Some d \<Rightarrow> d))"

definition getCommonQueryTemplates :: "sample list" where
  "getCommonQueryTemplates =
     [\<lparr>s_description = js ''Row count for a table'',
       s_template = js ''SELECT COUNT(*) AS total FROM <schema.table>''\<rparr>,
      \<lparr>s_description = js ''Preview rows'',
       s_template = js ''SELECT TOP(:limit) * FROM <schema.table> ORDER BY 1''\<rparr>,
      \<lparr>s_description = js ''Count by a column'',
       s_template = js ''SELECT <column>, COUNT(*) AS cnt FROM <schema.table> GROUP BY <column> ORDER BY cnt DESC''\<rparr>]"

definition sample_join :: "jsstring \<Rightarrow> fk \<Rightarrow> sample" where
  "sample_join tableName k =
     (let refTableWithSchema =
            (if js_includes (fk_ref_table k) (js ''.'') then fk_ref_table k
             else js ''SalesLT.'' @ fk_ref_table k)
      in \<lparr>s_description = js ''Join '' @ tableName @ js '' with '' @ refTableWithSchema,
          s_template = js ''SELECT t1.*, t2.* FROM '' @ tableName @ js '' t1 INNER JOIN '' @
                       refTableWithSchema @ js '' t2 ON t1.'' @ fk_column k @ js '' = t2.'' @
                       fk_ref_column k\<rparr>)"

text \<open>\<open>fks\<close> is \<open>None\<close> when the caller passes \<^verbatim>\<open>undefined\<close> (no entry in \<^verbatim>\<open>fkMap\<close>).\<close>

definition getSampleJoins :: "jsstring \<Rightarrow> fk list option \<Rightarrow> sample list" where
  "getSampleJoins tableName fks =
     (case fks of
        None \<Rightarrow> []
      | Some ks \<Rightarrow> if length ks = 0 then [] else map (sample_join tableName) (take 2 ks))"

section \<open>sqlSchema.js\<close>

text \<open>The module constants, as they are after the environment has been read.\<close>

record config =
  VIEW_WHITELIST :: jsstring
  OBJECT_TYPES_DEFAULT :: jsstring
  OBJECT_ALLOWLIST :: "jsstring list"
  INCLUDE_TYPES :: jsstring
  EXCLUDE_SCHEMAS :: "jsstring list"

text \<open>
  What the handler reads of a request: the two header lookups, \<^verbatim>\<open>body?.object_types\<close>,
  and \<^verbatim>\<open>body.tables\<close> when it is an array.
\<close>

record request =
  header_lower :: jsval
  header_upper :: jsval
  body_object_types :: jsval
  body_tables :: "jsval list option"

text \<open>
  What is thrown inside the handler: a TypeError of the engine (a method called on a value
  that has none) or the error of a database call.
\<close>

datatype exn = TypeError | DbError jsstring

record object =
  o_schema :: jsstring
  o_name :: jsstring
  o_type :: jsstring

record column_row =
  r_qn :: jsstring
  COLUMN_NAME :: jsstring
  DATA_TYPE :: jsstring
  IS_NULLABLE :: jsstring
  CHARACTER_MAXIMUM_LENGTH :: "int option"

record fk_row =
  parent_schema :: jsstring
  parent_table :: jsstring
  parent_col :: jsstring
  ref_schema :: jsstring
  ref_table :: jsstring
  ref_col :: jsstring

text \<open>
  The database is a collaborator: one function per statement the handler issues, from the
  bound parameters to the record set or the error; \<open>getPool\<close> is the error of the
  connection, if any.
\<close>

record db =
  getPool :: "exn option"
  q_views :: "jsstring \<Rightarrow> exn + (jsstring \<times> jsstring) list"
  q_tables :: "(jsstring \<times> jsstring option \<times> bool) list \<Rightarrow> exn + (jsstring \<times> jsstring) list"
  q_catalog :: "bool \<Rightarrow> bool \<Rightarrow> jsstring list \<Rightarrow> exn + (jsstring \<times> jsstring \<times> jsstring) list"
  q_columns :: "jsstring list \<Rightarrow> exn + column_row list"
  q_pks :: "(jsstring \<times> jsstring option) list \<Rightarrow> exn + (jsstring \<times> jsstring \<times> jsstring) list"
  q_fks :: "(jsstring \<times> jsstring option) list \<Rightarrow> exn + fk_row list"

text \<open>The statements issued, in order.\<close>

datatype query =
    QViews jsstring
  | QTables "(jsstring \<times> jsstring option \<times> bool) list"
  | QCatalog bool bool "jsstring list"
  | QColumns "jsstring list"
  | QPks "(jsstring \<times> jsstring option) list"
  | QFks "(jsstring \<times> jsstring option) list"

record column =
  c_name :: jsstring
  c_type :: jsstring
  c_nullable :: bool
  c_max_len :: "int option"
  c_pk :: bool
  c_description :: jsstring

record table_entry =
  t_name :: jsstring
  t_description :: jsstring
  t_columns :: "column list"
  t_fks :: "fk list"
  t_sample_joins :: "sample list"

record catalog =
  cat_tables :: "table_entry list"
  cat_common_queries :: "sample list"
  cat_generated_at_utc :: jsstring
  cat_notes :: jsstring

datatype jsonBody = ErrorBody exn | CatalogBody catalog

record response =
  status :: nat
  jsonBody :: jsonBody

text \<open>
  \<^verbatim>\<open>toLowerCase\<close> on the letters \<^verbatim>\<open>A-Z\<close>; other code units are left as they are.
\<close>

definition toLowerCase :: "jsstring \<Rightarrow> jsstring" where
  "toLowerCase s = map (\<lambda>c. if is_upper c then c + 32 else c) s"

text \<open>\<^verbatim>\<open>qn.split('.')\<close>\<close>

fun split_dot :: "jsstring \<Rightarrow> jsstring list" where
  "split_dot [] = [[]]"
| "split_dot (x # xs) =
     (if x = 46 then [] # split_dot xs
      else (case split_dot xs of [] \<Rightarrow> [[x]] | c # cs \<Rightarrow> (x # c) # cs))"

text \<open>\<^verbatim>\<open>const [sch, nm] = qn.split('.')\<close>; \<open>nm\<close> is \<open>None\<close> for \<^verbatim>\<open>undefined\<close>.\<close>

definition split2 :: "jsstring \<Rightarrow> jsstring \<times> jsstring option" where
  "split2 qn = (case split_dot qn of [] \<Rightarrow> ([], None) | [a] \<Rightarrow> (a, None) | a # b # _ \<Rightarrow> (a, Some b))"

text \<open>
  \<^verbatim>\<open>mode = (headerMode || body?.object_types || OBJECT_TYPES_DEFAULT).toLowerCase()\<close>
\<close>

definition mode_of :: "config \<Rightarrow> request \<Rightarrow> exn + jsstring" where
  "mode_of cfg req =
     (let headerMode = js_or (js_or (header_lower req) (header_upper req)) JUndefined
      in case js_or (js_or headerMode (body_object_types req)) (JStr (OBJECT_TYPES_DEFAULT cfg)) of
           JStr s \<Rightarrow> Inr (toLowerCase s)
         | _ \<Rightarrow> Inl TypeError)"

text \<open>Views via the whitelist pattern.\<close>

definition views_step :: "config \<Rightarrow> db \<Rightarrow> jsstring \<Rightarrow> (exn + object list) \<times> query list" where
  "views_step cfg d mode =
     (if mode = js ''views'' \<or> mode = js ''both'' then
        (case q_views d (VIEW_WHITELIST cfg) of
           Inl e \<Rightarrow> (Inl e, [QViews (VIEW_WHITELIST cfg)])
         | Inr rows \<Rightarrow>
             (Inr (map (\<lambda>(s, n). \<lparr>o_schema = s, o_name = n, o_type = js ''VIEW''\<rparr>) rows),
              [QViews (VIEW_WHITELIST cfg)]))
      else (Inr [], []))"

fun str_of :: "jsval \<Rightarrow> jsstring option" where
  "str_of (JStr s) = Some s"
| "str_of v = None"

definition allow_entry :: "jsstring \<Rightarrow> jsstring \<times> jsstring option \<times> bool" where
  "allow_entry qn =
     (case split2 qn of
        (sch, nm) \<Rightarrow> if nm = Some (js ''*'') then (sch, Some (js ''%''), True) else (sch, nm, False))"

text \<open>
  Tables via the allow-list of the request or of the environment. \<^verbatim>\<open>qn.split\<close> throws
  on an entry that is not a string.
\<close>

definition tables_step ::
  "config \<Rightarrow> db \<Rightarrow> request \<Rightarrow> jsstring \<Rightarrow> (exn + object list) \<times> query list" where
  "tables_step cfg d req mode =
     (let clientFilter = (case body_tables req of None \<Rightarrow> [] | Some ts \<Rightarrow> ts)
      in if (mode = js ''tables'' \<or> mode = js ''both'') \<and>
            (length (OBJECT_ALLOWLIST cfg) \<noteq> 0 \<or> length clientFilter \<noteq> 0) then
           (let allow = (if length clientFilter \<noteq> 0 then clientFilter
                         else map JStr (OBJECT_ALLOWLIST cfg))
            in if list_ex (\<lambda>v. str_of v = None) allow then (Inl TypeError, [])
               else let entries = map (\<lambda>v. allow_entry (to_string v)) allow
                    in (case q_tables d entries of
                          Inl e \<Rightarrow> (Inl e, [QTables entries])
                        | Inr rows \<Rightarrow>
                            (Inr (map (\<lambda>(s, n). \<lparr>o_schema = s, o_name = n, o_type = js ''TABLE''\<rparr>) rows),
                             [QTables entries])))
         else (Inr [], []))"

text \<open>
  The catalog fallback, when nothing has been resolved so far; the second component of
  the result is \<^verbatim>\<open>usingCatalogFallback\<close>.
\<close>

definition fallback_step ::
  "config \<Rightarrow> db \<Rightarrow> jsstring \<Rightarrow> object list \<Rightarrow> (exn + object list \<times> bool) \<times> query list" where
  "fallback_step cfg d mode objects =
     (if (mode = js ''tables'' \<or> mode = js ''both'' \<or> mode = js ''views'') \<and> length objects = 0 then
        (let includeTables = js_includes (INCLUDE_TYPES cfg) (js ''tables'');
             includeViews = js_includes (INCLUDE_TYPES cfg) (js ''views'');
             q = QCatalog includeTables includeViews (EXCLUDE_SCHEMAS cfg)
         in case q_catalog d includeTables includeViews (EXCLUDE_SCHEMAS cfg) of
              Inl e \<Rightarrow> (Inl e, [q])
            | Inr rows \<Rightarrow>
                (Inr (objects @
                      map (\<lambda>(sn, obn, ty).
                             \<lparr>o_schema = sn, o_name = obn,
                              o_type = (if ty = js ''U'' then js ''TABLE'' else js ''VIEW'')\<rparr>) rows,
                      True),
                 [q]))
      else (Inr (objects, False), []))"

text \<open>The relation set of a request: the three steps in order.\<close>

definition resolve ::
  "config \<Rightarrow> db \<Rightarrow> request \<Rightarrow> jsstring \<Rightarrow> (exn + object list \<times> bool) \<times> query list" where
  "resolve cfg d req mode =
     (case views_step cfg d mode of
        (Inl e, t1) \<Rightarrow> (Inl e, t1)
      | (Inr o1, t1) \<Rightarrow>
          (case tables_step cfg d req mode of
             (Inl e, t2) \<Rightarrow> (Inl e, t1 @ t2)
           | (Inr o2, t2) \<Rightarrow>
               (case fallback_step cfg d mode (o1 @ o2) of
                  (r, t3) \<Rightarrow> (r, t1 @ t2 @ t3))))"

definition qname :: "object \<Rightarrow> jsstring" where
  "qname ob = o_schema ob @ js ''.'' @ o_name ob"

text \<open>\<^verbatim>\<open>(m[k] ??= []).push(v)\<close>\<close>

definition push_to :: "('k \<rightharpoonup> 'v list) \<Rightarrow> 'k \<Rightarrow> 'v \<Rightarrow> ('k \<rightharpoonup> 'v list)" where
  "push_to m k v = m(k \<mapsto> (case m k of None \<Rightarrow> [] | Some l \<Rightarrow> l) @ [v])"

definition pkMap_of :: "(jsstring \<times> jsstring \<times> jsstring) list \<Rightarrow> (jsstring \<rightharpoonup> jsstring list)" where
  "pkMap_of rows = foldl (\<lambda>m (sn, tn, cn). push_to m (sn @ js ''.'' @ tn) cn) Map.empty rows"

definition fkMap_of :: "fk_row list \<Rightarrow> (jsstring \<rightharpoonup> fk list)" where
  "fkMap_of rows =
     foldl (\<lambda>m r. push_to m (parent_schema r @ js ''.'' @ parent_table r)
                     \<lparr>fk_column = parent_col r,
                      fk_ref_table = ref_schema r @ js ''.'' @ ref_table r,
                      fk_ref_column = ref_col r\<rparr>) Map.empty rows"

definition colMap_of :: "column_row list \<Rightarrow> (jsstring \<rightharpoonup> column_row list)" where
  "colMap_of rows = foldl (\<lambda>m r. push_to m (r_qn r) r) Map.empty rows"

definition table_of ::
  "(jsstring \<rightharpoonup> jsstring list) \<Rightarrow> (jsstring \<rightharpoonup> fk list) \<Rightarrow> (jsstring \<rightharpoonup> column_row list) \<Rightarrow>
   jsstring \<Rightarrow> table_entry" where
  "table_of pkMap fkMap colMap qn =
     (let bare = (case snd (split2 qn) of None \<Rightarrow> js ''undefined'' | Some b \<Rightarrow> b)
      in \<lparr>t_name = qn,
          t_description = getTableDescription bare,
          t_columns =
            map (\<lambda>r. \<lparr>c_name = COLUMN_NAME r,
                       c_type = DATA_TYPE r,
                       c_nullable = (IS_NULLABLE r = js ''YES''),
                       c_max_len = (case CHARACTER_MAXIMUM_LENGTH r of
                                      None \<Rightarrow> None
                                    | Some n \<Rightarrow> if n = 0 then None else Some n),
                       c_pk = (case pkMap qn of None \<Rightarrow> False | Some cs \<Rightarrow> COLUMN_NAME r \<in> set cs),
                       c_description = getColumnDescription bare (COLUMN_NAME r)\<rparr>)
                (case colMap qn of None \<Rightarrow> [] | Some rs \<Rightarrow> rs),
          t_fks = (case fkMap qn of None \<Rightarrow> [] | Some ks \<Rightarrow> ks),
          t_sample_joins = getSampleJoins qn (fkMap qn)\<rparr>)"

text \<open>
  The three introspection calls for the qualified names and the assembly of the entries.
\<close>

definition assemble :: "db \<Rightarrow> jsstring list \<Rightarrow> (exn + table_entry list) \<times> query list" where
  "assemble d qnames =
     (case q_columns d qnames of
        Inl e \<Rightarrow> (Inl e, [QColumns qnames])
      | Inr columns \<Rightarrow>
          (case q_pks d (map split2 qnames) of
             Inl e \<Rightarrow> (Inl e, [QColumns qnames, QPks (map split2 qnames)])
           | Inr pkRows \<Rightarrow>
               (case q_fks d (map split2 qnames) of
                  Inl e \<Rightarrow> (Inl e, [QColumns qnames, QPks (map split2 qnames), QFks (map split2 qnames)])
                | Inr fkRows \<Rightarrow>
                    (Inr (map (table_of (pkMap_of pkRows) (fkMap_of fkRows) (colMap_of columns)) qnames),
                     [QColumns qnames, QPks (map split2 qnames), QFks (map split2 qnames)]))))"

fun join_comma :: "jsstring list \<Rightarrow> jsstring" where
  "join_comma [] = []"
| "join_comma [x] = x"
| "join_comma (x # xs) = x @ js '','' @ join_comma xs"

definition mode_notes :: "config \<Rightarrow> jsstring \<Rightarrow> jsstring" where
  "mode_notes cfg mode =
     js ''Mode='' @ mode @ js ''; views LIKE '' @ VIEW_WHITELIST cfg @ js ''; tables from allow-list''"

definition failed :: "exn \<Rightarrow> response" where
  "failed e = \<lparr>status = 500, jsonBody = ErrorBody e\<rparr>"

text \<open>
  The handler of \<^verbatim>\<open>sql-schema\<close>: the response and the statements issued. \<open>now\<close> is the
  time stamp \<^verbatim>\<open>new Date().toISOString()\<close>.
\<close>

definition sql_schema :: "config \<Rightarrow> db \<Rightarrow> jsstring \<Rightarrow> request \<Rightarrow> response \<times> query list" where
  "sql_schema cfg d now req =
     (case mode_of cfg req of
        Inl e \<Rightarrow> (failed e, [])
      | Inr mode \<Rightarrow>
          (case getPool d of
             Some e \<Rightarrow> (failed e, [])
           | None \<Rightarrow>
               (case resolve cfg d req mode of
                  (Inl e, t) \<Rightarrow> (failed e, t)
                | (Inr (objects, usingCatalogFallback), t) \<Rightarrow>
                    if length objects = 0 then
                      (\<lparr>status = 200,
                        jsonBody = CatalogBody
                          \<lparr>cat_tables = [],
                           cat_common_queries = getCommonQueryTemplates,
                           cat_generated_at_utc = now,
                           cat_notes = mode_notes cfg mode\<rparr>\<rparr>, t)
                    else
                      (case assemble d (map qname objects) of
                         (Inl e, t') \<Rightarrow> (failed e, t @ t')
                       | (Inr ts, t') \<Rightarrow>
                           (\<lparr>status = 200,
                             jsonBody = CatalogBody
                               \<lparr>cat_tables = ts,
                                cat_common_queries = getCommonQueryTemplates,
                                cat_generated_at_utc = now,
                                cat_notes = (if usingCatalogFallback
                                         then js ''Included: '' @ INCLUDE_TYPES cfg @
                                              js ''; Excluded schemas: '' @
                                              join_comma (EXCLUDE_SCHEMAS cfg)
                                         else mode_notes cfg mode)\<rparr>\<rparr>, t @ t')))))"

section \<open>Notions of the specification\<close>

text \<open>
  The wire type the specification assigns to a parameter value: a whole number is an
  integer, any other number a float, a date a timestamp, a boolean a bit, everything else
  text; text is bound after string conversion.
\<close>

fun wire_type :: "jsval \<Rightarrow> sqltype" where
  "wire_type (JNum (Fin q)) = (if q \<in> \<int> then SqlInt else SqlFloat)"
| "wire_type (JNum n) = SqlFloat"
| "wire_type (JDate s) = SqlDateTime2"
| "wire_type (JBool b) = SqlBit"
| "wire_type v = SqlNVarCharMax"

definition wire_value :: "jsval \<Rightarrow> jsval" where
  "wire_value v = (if wire_type v = SqlNVarCharMax then JStr (to_string v) else v)"

definition bound :: "jsval \<Rightarrow> bool" where
  "bound v \<longleftrightarrow> v \<noteq> JNull \<and> v \<noteq> JUndefined"

text \<open>The foreign-key edges of a relation; none when the map has no entry for it.\<close>

definition edges_of :: "fk list option \<Rightarrow> fk list" where
  "edges_of fks = (case fks of None \<Rightarrow> [] | Some ks \<Rightarrow> ks)"

definition valid_mode :: "jsstring \<Rightarrow> bool" where
  "valid_mode mode \<longleftrightarrow> mode = js ''views'' \<or> mode = js ''tables'' \<or> mode = js ''both''"

subsection \<open>A schema request against a small database\<close>

definition example_config :: config where
  "example_config =
     \<lparr>VIEW_WHITELIST = js ''vw%'', OBJECT_TYPES_DEFAULT = js ''both'', OBJECT_ALLOWLIST = [],
      INCLUDE_TYPES = js ''tables,views'',
      EXCLUDE_SCHEMAS = [js ''sys'', js ''INFORMATION_SCHEMA'', js ''cdc'']\<rparr>"

definition example_db :: db where
  "example_db =
     \<lparr>getPool = None,
      q_views = (\<lambda>pat. Inr [(js ''dbo'', js ''vwUsers'')]),
      q_tables = (\<lambda>es. Inr []),
      q_catalog = (\<lambda>it iv xs. Inr []),
      q_columns = (\<lambda>qs. Inr []),
      q_pks = (\<lambda>qs. Inr []),
      q_fks = (\<lambda>qs. Inr [])\<rparr>"


text \<open>A request whose header names the mode \<^verbatim>\<open>View\<close>, which is none of the three.\<close>

definition typo_request :: request where
  "typo_request =
     \<lparr>header_lower = JStr (js ''View''), header_upper = JUndefined,
      body_object_types = JUndefined, body_tables = None\<rparr>"

subsection \<open>Notions of the validator and the limit injector\<close>

text \<open>\<open>w\<close> stands at the start of \<open>xs\<close>, in any case of its letters.\<close>

definition ci_prefix :: "jsstring \<Rightarrow> jsstring \<Rightarrow> bool" where
  "ci_prefix w xs \<longleftrightarrow> map canon (take (length w) xs) = map canon w"

text \<open>The text starts with the SELECT keyword at a word boundary.\<close>

definition starts_select_wb :: "jsstring \<Rightarrow> bool" where
  "starts_select_wb t \<longleftrightarrow> ci_prefix (js ''select'') t \<and> \<not> word_next (drop 6 t)"

text \<open>The text starts with the SELECT keyword followed by a white space character.\<close>

definition starts_select_space :: "jsstring \<Rightarrow> bool" where
  "starts_select_space t \<longleftrightarrow>
     ci_prefix (js ''select'') t \<and> (case drop 6 t of [] \<Rightarrow> False | c # _ \<Rightarrow> is_space c)"

text \<open>
  A row-limiting clause directly follows the leading SELECT keyword: SELECT, white space,
  TOP, then an opening parenthesis or a digit, possibly after white space.
\<close>

definition leading_top :: "jsstring \<Rightarrow> bool" where
  "leading_top s \<longleftrightarrow>
     (let a = dropWhile is_space s;
          b = drop 6 a;
          c = dropWhile is_space b;
          d = dropWhile is_space (drop 3 c)
      in ci_prefix (js ''select'') a \<and>
         (case b of [] \<Rightarrow> False | x # _ \<Rightarrow> is_space x) \<and>
         ci_prefix (js ''top'') c \<and>
         (case d of [] \<Rightarrow> False | x # _ \<Rightarrow> x = 40 \<or> is_digit x))"

subsection \<open>The matcher on literal words and on repeated classes\<close>

fun prefix_ic :: "bool \<Rightarrow> jsstring \<Rightarrow> jsstring \<Rightarrow> bool" where
  "prefix_ic ic [] xs = True"
| "prefix_ic ic (c # cs) [] = False"
| "prefix_ic ic (c # cs) (x # xs) = (chr_eq ic c x \<and> prefix_ic ic cs xs)"

definition prev_after :: "nat option \<Rightarrow> jsstring \<Rightarrow> nat option" where
  "prev_after p ys = (if ys = [] then p else Some (last ys))"

fun star_cls :: "cclass list \<Rightarrow> mstate \<Rightarrow> mstate list" where
  "star_cls cs (p, [], cap) = [(p, [], cap)]"
| "star_cls cs (p, x # xs, cap) =
     (if list_ex (\<lambda>k. in_class k x) cs then star_cls cs (Some x, xs, cap) @ [(p, x # xs, cap)]
      else [(p, x # xs, cap)])"

subsection \<open>Notions of the parameter translator\<close>

text \<open>An identifier starts with a letter or an underscore.\<close>

definition ident_start :: "nat \<Rightarrow> bool" where
  "ident_start c \<longleftrightarrow> is_upper c \<or> is_lower c \<or> c = 95"

text \<open>
  The rewriting the specification describes: a colon directly before the start of an
  identifier becomes \<^verbatim>\<open>@\<close>, every other code unit stays.
\<close>

fun colon_to_at :: "jsstring \<Rightarrow> jsstring" where
  "colon_to_at [] = []"
| "colon_to_at (x # xs) =
     (if x = 58 \<and> (case xs of [] \<Rightarrow> False | y # _ \<Rightarrow> ident_start y) then 64 else x) #
     colon_to_at xs"

text \<open>Membership in a bracket of classes.\<close>

definition in_classes :: "cclass list \<Rightarrow> nat \<Rightarrow> bool" where
  "in_classes cs x = list_ex (\<lambda>k. in_class k x) cs"

subsection \<open>The row-limiting clause at a position\<close>

text \<open>SELECT, white space, TOP and an opening parenthesis or a digit stand at the start of \<open>xs\<close>.\<close>

definition top_clause_at :: "jsstring \<Rightarrow> bool" where
  "top_clause_at xs \<longleftrightarrow>
     ci_prefix (js ''select'') xs \<and>
     (case drop 6 xs of [] \<Rightarrow> False | y # _ \<Rightarrow> is_space y) \<and>
     ci_prefix (js ''top'') (dropWhile is_space (drop 6 xs)) \<and>
     (case dropWhile is_space (drop 3 (dropWhile is_space (drop 6 xs))) of
        [] \<Rightarrow> False | x # _ \<Rightarrow> x = 40 \<or> is_digit x)"

subsection \<open>Banned tokens\<close>



section \<open>Properties of the binding loop\<close>

lemma whole_iff: "(\<exists>n. q = rat_of_int n) \<longleftrightarrow> q \<in> \<int>"
  by (auto elim: Ints_cases)

lemma bind_step:
  "bind_params ((k, v) # es) request =
     bind_params es (if bound v then request @ [(k, wire_type v, wire_value v)] else request)"
  by (cases v rule: wire_type.cases) (simp_all add: bound_def wire_value_def whole_iff)

lemma bind_params_acc:
  "bind_params es request =
     request @ map (\<lambda>(k, v). (k, wire_type v, wire_value v)) (filter (\<lambda>(k, v). bound v) es)"
proof (induction es arbitrary: request)
  case Nil
  show ?case by simp
next
  case (Cons e es)
  obtain k v where e: "e = (k, v)" by (cases e)
  show ?case
    unfolding e bind_step Cons.IH by simp
qed

text \<open>
  C5: the bindings of a params mapping are, in the order of its keys, one binding for each
  key whose value is neither null nor undefined, of the wire type the specification assigns
  to the value (integer, float, timestamp, bit, or text after string conversion); a key
  whose value is null or undefined gives no binding.
\<close>

theorem binding_classification:
  "bind_params es [] =
     map (\<lambda>(k, v). (k, wire_type v, wire_value v)) (filter (\<lambda>(k, v). bound v) es)"
  by (simp add: bind_params_acc)

theorem binding_classification_witness:
  "bind_params [(js ''id'', JNum (Fin 42)), (js ''gone'', JNull), (js ''rate'', JNum (Fin (5 / 2))),
                (js ''ok'', JBool True), (js ''at'', JDate (js ''2025'')), (js ''who'', JStr (js ''Ann'')),
                (js ''none'', JUndefined), (js ''nan'', JNum NaN)] [] =
     [(js ''id'', SqlInt, JNum (Fin 42)), (js ''rate'', SqlFloat, JNum (Fin (5 / 2))),
      (js ''ok'', SqlBit, JBool True), (js ''at'', SqlDateTime2, JDate (js ''2025'')),
      (js ''who'', SqlNVarCharMax, JStr (js ''Ann'')), (js ''nan'', SqlFloat, JNum NaN)]"
proof -
  have "(5 / 2 :: rat) \<notin> \<int>"
  proof
    assume "(5 / 2 :: rat) \<in> \<int>"
    then obtain n :: int where "(5 / 2 :: rat) = rat_of_int n" by (auto elim: Ints_cases)
    then have "rat_of_int 5 = rat_of_int (2 * n)" by simp
    then have "5 = 2 * n" by (simp only: of_int_eq_iff)
    then show False by presburger
  qed
  then show ?thesis
    using binding_classification
      [of "[(js ''id'', JNum (Fin 42)), (js ''gone'', JNull), (js ''rate'', JNum (Fin (5 / 2))),
            (js ''ok'', JBool True), (js ''at'', JDate (js ''2025'')), (js ''who'', JStr (js ''Ann'')),
            (js ''none'', JUndefined), (js ''nan'', JNum NaN)]"]
    by (simp add: bound_def wire_value_def)
qed

section \<open>Properties of the sample joins\<close>

lemma js_includes_single: "js_includes s [c] \<longleftrightarrow> c \<in> set s"
  by (induction s) auto

text \<open>
  C8: a relation with k foreign-key edges gets exactly min(k, 2) sample joins, the i-th of
  them the two-alias inner join on the column pair of the i-th edge; a relation without
  edges gets none.
\<close>

theorem sample_joins_capped:
  "length (getSampleJoins tableName fks) = min (length (edges_of fks)) 2 \<and>
   (\<forall>i < min (length (edges_of fks)) 2.
      s_template (getSampleJoins tableName fks ! i) =
        js ''SELECT t1.*, t2.* FROM '' @ tableName @ js '' t1 INNER JOIN '' @
        (if 46 \<in> set (fk_ref_table (edges_of fks ! i)) then fk_ref_table (edges_of fks ! i)
         else js ''SalesLT.'' @ fk_ref_table (edges_of fks ! i)) @
        js '' t2 ON t1.'' @ fk_column (edges_of fks ! i) @ js '' = t2.'' @
        fk_ref_column (edges_of fks ! i)) \<and>
   (edges_of fks = [] \<longrightarrow> getSampleJoins tableName fks = [])"
proof (intro conjI)
  show "length (getSampleJoins tableName fks) = min (length (edges_of fks)) 2"
    by (cases fks) (auto simp: getSampleJoins_def edges_of_def)
  show "edges_of fks = [] \<longrightarrow> getSampleJoins tableName fks = []"
    by (cases fks) (auto simp: getSampleJoins_def edges_of_def)
  show "\<forall>i < min (length (edges_of fks)) 2.
      s_template (getSampleJoins tableName fks ! i) =
        js ''SELECT t1.*, t2.* FROM '' @ tableName @ js '' t1 INNER JOIN '' @
        (if 46 \<in> set (fk_ref_table (edges_of fks ! i)) then fk_ref_table (edges_of fks ! i)
         else js ''SalesLT.'' @ fk_ref_table (edges_of fks ! i)) @
        js '' t2 ON t1.'' @ fk_column (edges_of fks ! i) @ js '' = t2.'' @
        fk_ref_column (edges_of fks ! i)"
    by (cases fks)
       (auto simp: getSampleJoins_def edges_of_def sample_join_def js_includes_single js_def Let_def)
qed

theorem sample_joins_capped_witness:
  "length (getSampleJoins (js ''S.O'')
     (Some [\<lparr>fk_column = js ''a'', fk_ref_table = js ''S.A'', fk_ref_column = js ''x''\<rparr>,
            \<lparr>fk_column = js ''b'', fk_ref_table = js ''B'', fk_ref_column = js ''y''\<rparr>,
            \<lparr>fk_column = js ''c'', fk_ref_table = js ''S.C'', fk_ref_column = js ''z''\<rparr>])) = 2 \<and>
   s_template (getSampleJoins (js ''S.O'')
     (Some [\<lparr>fk_column = js ''a'', fk_ref_table = js ''S.A'', fk_ref_column = js ''x''\<rparr>,
            \<lparr>fk_column = js ''b'', fk_ref_table = js ''B'', fk_ref_column = js ''y''\<rparr>,
            \<lparr>fk_column = js ''c'', fk_ref_table = js ''S.C'', fk_ref_column = js ''z''\<rparr>]) ! 1) =
     js ''SELECT t1.*, t2.* FROM S.O t1 INNER JOIN SalesLT.B t2 ON t1.b = t2.y'' \<and>
   getSampleJoins (js ''S.O'') None = []"
  using sample_joins_capped
    [of "js ''S.O''"
        "Some [\<lparr>fk_column = js ''a'', fk_ref_table = js ''S.A'', fk_ref_column = js ''x''\<rparr>,
               \<lparr>fk_column = js ''b'', fk_ref_table = js ''B'', fk_ref_column = js ''y''\<rparr>,
               \<lparr>fk_column = js ''c'', fk_ref_table = js ''S.C'', fk_ref_column = js ''z''\<rparr>]"]
    sample_joins_capped [of "js ''S.O''" None]
  by (simp add: edges_of_def js_def)

section \<open>Properties of the schema endpoint\<close>





lemma resolve_invalid_mode:
  "\<not> valid_mode mode \<Longrightarrow> resolve cfg d req mode = (Inr ([], False), [])"
  by (simp add: valid_mode_def resolve_def views_step_def tables_step_def fallback_step_def)

text \<open>
  C10, as amended: when the connection pool is obtained and the effective mode is a string
  other than \<^verbatim>\<open>views\<close>, \<^verbatim>\<open>tables\<close> and \<^verbatim>\<open>both\<close>, the endpoint issues no statement at all
  (no view enumeration, no allow-list resolution, no catalog fallback) and answers with
  status 200, an empty tables list and the fixed common query templates.
\<close>

theorem invalid_mode_empty_catalog:
  assumes "mode_of cfg req = Inr mode" and "\<not> valid_mode mode" and "getPool d = None"
  shows "sql_schema cfg d now req =
           (\<lparr>status = 200,
             jsonBody = CatalogBody
               \<lparr>cat_tables = [], cat_common_queries = getCommonQueryTemplates,
                cat_generated_at_utc = now, cat_notes = mode_notes cfg mode\<rparr>\<rparr>, [])"
  using assms by (simp add: sql_schema_def resolve_invalid_mode)

lemma typo_mode: "mode_of example_config typo_request = Inr (js ''view'')"
  by (simp add: mode_of_def typo_request_def js_or_def toLowerCase_def is_upper_def js_def)

lemma typo_invalid: "\<not> valid_mode (js ''view'')"
  by (simp add: valid_mode_def js_def)

theorem invalid_mode_empty_catalog_witness:
  "mode_of example_config typo_request = Inr (js ''view'') \<and>
   \<not> valid_mode (js ''view'') \<and>
   getPool example_db = None \<and>
   sql_schema example_config example_db [] typo_request =
     (\<lparr>status = 200,
       jsonBody = CatalogBody
         \<lparr>cat_tables = [], cat_common_queries = getCommonQueryTemplates,
          cat_generated_at_utc = [], cat_notes = mode_notes example_config (js ''view'')\<rparr>\<rparr>, [])"
proof -
  have p: "getPool example_db = None" by (simp add: example_db_def)
  from invalid_mode_empty_catalog [OF typo_mode typo_invalid p, of "[]"] typo_mode typo_invalid p
  show ?thesis by simp
qed

text \<open>
  C10 as stated fails when the connection cannot be obtained: \<^verbatim>\<open>getPool\<close> is awaited
  before the mode is tested, and its error is answered with status 500.
\<close>

theorem invalid_mode_pool_failure:
  "mode_of example_config typo_request = Inr (js ''view'') \<and>
   \<not> valid_mode (js ''view'') \<and>
   sql_schema example_config (example_db\<lparr>getPool := Some (DbError (js ''Login failed''))\<rparr>) []
     typo_request =
     (\<lparr>status = 500, jsonBody = ErrorBody (DbError (js ''Login failed''))\<rparr>, [])"
  using typo_mode typo_invalid by (simp add: sql_schema_def failed_def)

section \<open>Properties of the matcher\<close>

lemma prev_after_simps [simp]:
  "prev_after p [] = p" "prev_after p (y # ys) = prev_after (Some y) ys"
  by (simp_all add: prev_after_def)

lemma ms_lits:
  "ms ic (lits w) (p, xs, cap) =
     (if prefix_ic ic w xs then [(prev_after p (take (length w) xs), drop (length w) xs, cap)]
      else [])"
proof (induction w arbitrary: p xs)
  case Nil
  show ?case by (simp add: lits_def)
next
  case (Cons c cs)
  show ?case
  proof (cases xs)
    case Nil
    then show ?thesis by (simp add: lits_def)
  next
    case (Cons x xs')
    with Cons.IH [of "Some x" xs'] show ?thesis
      by (simp add: lits_def)
  qed
qed

lemma star_cls_eq: "star (ms ic (Cls cs)) st = star_cls cs st"
proof (induction cs st rule: star_cls.induct)
  case (1 cs p cap)
  show ?case by (simp add: star.simps [of _ "(p, [], cap)"])
next
  case (2 cs p x xs cap)
  then show ?case
    by (simp add: star.simps [of _ "(p, x # xs, cap)"])
qed

lemma prefix_ic_ci: "prefix_ic True w xs \<longleftrightarrow> ci_prefix w xs"
proof (induction w arbitrary: xs)
  case Nil
  show ?case by (simp add: ci_prefix_def)
next
  case (Cons c cs)
  show ?case
  proof (cases xs)
    case Nil
    then show ?thesis by (simp add: ci_prefix_def)
  next
    case (Cons x xs')
    with Cons.IH [of xs'] show ?thesis
      by (auto simp: ci_prefix_def chr_eq_def)
  qed
qed

lemma exec_Bol_later: "exec ic (Seq Bol r) (Some y) xs = None"
  by (induction xs arbitrary: y) simp_all

lemma test_Bol: "test ic (Seq Bol r) s \<longleftrightarrow> ms ic r (None, s, None) \<noteq> []"
  by (cases s) (auto simp: test_def exec_Bol_later split: list.splits)

section \<open>Properties of the validator and the limit injector\<close>

lemma len_select: "length (js ''select'') = 6"
  by (simp add: js_def)

lemma test_re_select: "test True re_select t \<longleftrightarrow> starts_select_space t"
proof -
  have "ms True (seqs [lits (js ''select''), Cls [Space]]) (None, t, None) \<noteq> [] \<longleftrightarrow>
        starts_select_space t"
    by (simp add: ms_lits prefix_ic_ci len_select starts_select_space_def split: list.splits)
  then show ?thesis
    unfolding re_select_def seqs.simps test_Bol by simp
qed

text \<open>
  C3, as amended: the validator trims the statement and raises its first error (only
  SELECT statements are allowed) if and only if the trimmed text does not start with
  SELECT, in any case, followed by a white space character; a statement it returns is the
  trimmed text.
\<close>

theorem validator_select_check:
  "(validateSelectOnly sql = Inl OnlySelectAllowed \<longleftrightarrow> \<not> starts_select_space (trim sql)) \<and>
   (\<forall>s. validateSelectOnly sql = Inr s \<longrightarrow> s = trim sql \<and> starts_select_space s)"
  by (auto simp: validateSelectOnly_def Let_def test_re_select)


lemmas engine_eval =
  ms_lits star_cls_eq rplus_def word_before_def word_next_def chr_eq_def canon_def
  is_word_def is_upper_def is_lower_def is_digit_def is_space_def js_def test_def

theorem validator_select_check_witness:
  "validateSelectOnly (js '' select 1 '') = Inr (js ''select 1'') \<and>
   js ''select 1'' = trim (js '' select 1 '') \<and>
   starts_select_space (js ''select 1'')"
proof -
  have v: "validateSelectOnly (js '' select 1 '') = Inr (js ''select 1'')"
    by (simp add: validateSelectOnly_def trim_def re_select_def re_banned_def banned_words_def
        engine_eval)
  from validator_select_check [of "js '' select 1 ''"] v
  have "js ''select 1'' = trim (js '' select 1 '') \<and> starts_select_space (js ''select 1'')"
    by blast
  with v show ?thesis by blast
qed

text \<open>
  C3 as stated fails: \<^verbatim>\<open>SELECT*\<close> starts with the SELECT keyword at a word boundary and
  is rejected all the same, since \<^verbatim>\<open>/^select\s/i\<close> asks for white space after the keyword.
\<close>

theorem validator_select_star_rejected:
  "starts_select_wb (trim (js ''SELECT*'')) \<and>
   validateSelectOnly (js ''SELECT*'') = Inl OnlySelectAllowed"
  by (simp add: validateSelectOnly_def test_re_select starts_select_space_def starts_select_wb_def
      trim_def js_def ci_prefix_def canon_def is_lower_def is_space_def word_next_def is_word_def
      is_upper_def is_digit_def)

text \<open>
  C2: a validated statement whose subquery carries a TOP clause. The test for an existing
  clause is not anchored at the start, so nothing is injected and the statement that is
  sent has no row-limiting clause after its leading SELECT.
\<close>

theorem inject_misses_nested_top:
  "validateSelectOnly (js ''SELECT a FROM (SELECT TOP 5 a FROM t) x'') =
     Inr (js ''SELECT a FROM (SELECT TOP 5 a FROM t) x'') \<and>
   injectTopLimit (js ''SELECT a FROM (SELECT TOP 5 a FROM t) x'') (Fin 10) =
     js ''SELECT a FROM (SELECT TOP 5 a FROM t) x'' \<and>
   prepare (js ''SELECT a FROM (SELECT TOP 5 a FROM t) x'') (Fin 10) =
     Inr (js ''SELECT a FROM (SELECT TOP 5 a FROM t) x'') \<and>
   \<not> leading_top (js ''SELECT a FROM (SELECT TOP 5 a FROM t) x'')"
proof -
  have v: "validateSelectOnly (js ''SELECT a FROM (SELECT TOP 5 a FROM t) x'') =
     Inr (js ''SELECT a FROM (SELECT TOP 5 a FROM t) x'')"
    by (simp add: validateSelectOnly_def trim_def re_select_def re_banned_def banned_words_def
        engine_eval)
  have i: "injectTopLimit (js ''SELECT a FROM (SELECT TOP 5 a FROM t) x'') (Fin 10) =
     js ''SELECT a FROM (SELECT TOP 5 a FROM t) x''"
    by (simp add: injectTopLimit_def re_has_top_def engine_eval)
  have t: "toTediousNamedParams (js ''SELECT a FROM (SELECT TOP 5 a FROM t) x'') =
     js ''SELECT a FROM (SELECT TOP 5 a FROM t) x''"
    by (simp add: toTediousNamedParams_def re_param_def replace_all.simps engine_eval)
  have l: "\<not> leading_top (js ''SELECT a FROM (SELECT TOP 5 a FROM t) x'')"
    by (simp add: leading_top_def ci_prefix_def canon_def is_lower_def is_space_def is_digit_def js_def)
  from v i t l show ?thesis by (simp add: prepare_def)
qed

text \<open>
  C4: for the row limit \<^verbatim>\<open>"abc"\<close> the effective limit is NaN, which is no integer of
  \<open>[1, 5000]\<close>, and the statement that is sent carries \<^verbatim>\<open>TOP(NaN)\<close>.
\<close>

theorem limit_not_a_number:
  "effective_limit None (JStr (js ''abc'')) = NaN \<and>
   prepare (js ''SELECT 1 AS x'') (effective_limit None (JStr (js ''abc''))) =
     Inr (js ''SELECT TOP(NaN) 1 AS x'')"
proof -
  have e: "effective_limit None (JStr (js ''abc'')) = NaN"
    by (simp add: effective_limit_def js_or_def parseInt_def parseInt_str_def math_min_def
        math_max_def is_space_def is_digit_def js_def)
  have v: "validateSelectOnly (js ''SELECT 1 AS x'') = Inr (js ''SELECT 1 AS x'')"
    by (simp add: validateSelectOnly_def trim_def re_select_def re_banned_def banned_words_def
        engine_eval)
  have i: "injectTopLimit (js ''SELECT 1 AS x'') NaN = js ''SELECT TOP(NaN) 1 AS x''"
    by (simp add: injectTopLimit_def re_has_top_def re_lead_def replace_first_def cap_text_def
        engine_eval)
  have t: "toTediousNamedParams (js ''SELECT TOP(NaN) 1 AS x'') = js ''SELECT TOP(NaN) 1 AS x''"
    by (simp add: toTediousNamedParams_def re_param_def replace_all.simps engine_eval)
  from e v i t show ?thesis by (simp add: prepare_def)
qed

section \<open>Properties of the parameter translator\<close>

lemma star_cls_hd:
  "\<exists>rest. star_cls cs (p, xs, cap) =
     (prev_after p (takeWhile (in_classes cs) xs), dropWhile (in_classes cs) xs, cap) # rest"
proof (induction xs arbitrary: p)
  case Nil
  show ?case by simp
next
  case (Cons x xs)
  from Cons [of "Some x"] show ?case
    by (auto simp: in_classes_def)
qed

lemma take_takeWhile: "take (length xs - length (dropWhile P xs)) xs = takeWhile P xs"
proof -
  have "length xs - length (dropWhile P xs) = length (takeWhile P xs)"
    by (metis add_diff_cancel_right' length_append takeWhile_dropWhile_id)
  then show ?thesis
    by (metis append_eq_conv_conj takeWhile_dropWhile_id)
qed

lemma concat_map_single: "concat (map (\<lambda>x. [x]) xs) = xs"
  by (induction xs) simp_all

lemma in_classes_word: "in_classes [WordC] = is_word"
  by (auto simp: in_classes_def fun_eq_iff)

lemma ident_class:
  "list_ex (\<lambda>k. in_class k c) [Range 65 90, Range 97 122, Range 95 95] = ident_start c"
  by (auto simp: ident_start_def is_upper_def is_lower_def)

lemma param_match:
  assumes "ident_start c"
  shows "\<exists>rest. ms False re_param (p, 58 # c # zs, None) =
           (prev_after (Some c) (takeWhile is_word zs), dropWhile is_word zs,
            Some (c # takeWhile is_word zs)) # rest"
proof -
  obtain rest where s: "star_cls [WordC] (Some c, zs, None) =
      (prev_after (Some c) (takeWhile is_word zs), dropWhile is_word zs, None) # rest"
    using star_cls_hd [of "[WordC]" "Some c" zs None] by (auto simp: in_classes_word)
  have le: "length (dropWhile is_word zs) \<le> length zs"
    by (rule length_dropWhile_le)
  have t: "take (Suc (length zs) - length (dropWhile is_word zs)) (c # zs) = c # takeWhile is_word zs"
    using le take_takeWhile [of zs is_word] by (simp add: Suc_diff_le)
  from assms show ?thesis
    by (simp add: re_param_def chr_eq_def star_cls_eq s t concat_map_single ident_class
        del: list_ex_Cons_iff list_ex_Nil_iff)
qed

lemma param_no_match:
  assumes "\<not> (x = 58 \<and> (case ys of [] \<Rightarrow> False | c # _ \<Rightarrow> ident_start c))"
  shows "ms False re_param (p, x # ys, None) = []"
  using assms
  by (auto simp: re_param_def chr_eq_def ident_class simp del: list_ex_Cons_iff list_ex_Nil_iff
      split: list.splits)

lemma param_no_match_nil: "ms False re_param (p, [], None) = []"
  by (simp add: re_param_def)

lemma replace_all_skip:
  assumes "ms ic r (p, x # ys, None) = []"
  shows "replace_all ic r f p (x # ys) = x # replace_all ic r f (Some x) ys"
  using assms
  by (simp add: replace_all.simps [of ic r f p "x # ys"] replace_all.simps [of ic r f "Some x" ys]
      split: option.splits prod.splits)

lemma colon_to_at_word: "colon_to_at zs = takeWhile is_word zs @ colon_to_at (dropWhile is_word zs)"
proof (induction zs)
  case Nil
  show ?case by simp
next
  case (Cons z zs)
  have "is_word z \<Longrightarrow> z \<noteq> 58"
    by (auto simp: is_word_def is_upper_def is_lower_def is_digit_def)
  with Cons show ?case by auto
qed

lemma replace_params: "replace_all False re_param (\<lambda>g1. 64 # g1) p s = colon_to_at s"
proof (induction s arbitrary: p rule: length_induct)
  case (1 s)
  show ?case
  proof (cases s)
    case Nil
    then show ?thesis
      by (simp add: replace_all.simps [of _ _ _ p "[]"] param_no_match_nil)
  next
    case (Cons x ys)
    show ?thesis
    proof (cases "x = 58 \<and> (case ys of [] \<Rightarrow> False | c # _ \<Rightarrow> ident_start c)")
      case False
      have "length ys < length s" using Cons by simp
      with 1 have "replace_all False re_param (\<lambda>g1. 64 # g1) (Some x) ys = colon_to_at ys"
        by blast
      with False Cons show ?thesis
        by (simp add: replace_all_skip [OF param_no_match [OF False]])
    next
      case True
      then obtain c zs where ys: "ys = c # zs" and c: "ident_start c" and x: "x = 58"
        by (auto split: list.splits)
      from param_match [OF c, of p zs] obtain rest where
        m: "ms False re_param (p, 58 # c # zs, None) =
           (prev_after (Some c) (takeWhile is_word zs), dropWhile is_word zs,
            Some (c # takeWhile is_word zs)) # rest" by blast
      have le: "length (dropWhile is_word zs) \<le> length zs"
        by (rule length_dropWhile_le)
      then have "length (dropWhile is_word zs) < length s" using Cons ys by simp
      with 1 have ih: "replace_all False re_param (\<lambda>g1. 64 # g1)
          (prev_after (Some c) (takeWhile is_word zs)) (dropWhile is_word zs) =
          colon_to_at (dropWhile is_word zs)"
        by blast
      have c58: "c \<noteq> 58" using c by (auto simp: ident_start_def is_upper_def is_lower_def)
      have "replace_all False re_param (\<lambda>g1. 64 # g1) p (58 # c # zs) =
            64 # c # takeWhile is_word zs @ colon_to_at (dropWhile is_word zs)"
        using le by (simp add: replace_all.simps [of _ _ _ p "58 # c # zs"] m ih cap_text_def)
      also have "\<dots> = colon_to_at (58 # c # zs)"
        using c c58 colon_to_at_word [of zs] by simp
      finally show ?thesis by (simp add: Cons ys x)
    qed
  qed
qed

lemma colon_to_at_length: "length (colon_to_at s) = length s"
  by (induction s) simp_all

lemma colon_to_at_nth:
  "i < length s \<Longrightarrow>
   colon_to_at s ! i =
     (if s ! i = 58 \<and> Suc i < length s \<and> ident_start (s ! Suc i) then 64 else s ! i)"
proof (induction s arbitrary: i)
  case Nil
  then show ?case by simp
next
  case (Cons x xs)
  show ?case
  proof (cases i)
    case 0
    then show ?thesis by (cases xs) auto
  next
    case (Suc j)
    with Cons show ?thesis by simp
  qed
qed

text \<open>
  C6: the translated text has the length of the input; a colon that is directly followed by
  a letter or an underscore (the start of \<^verbatim>\<open>:identifier\<close>) has become \<^verbatim>\<open>@\<close>, wherever it
  stands, also inside a quoted literal, and every other code unit is unchanged.
\<close>

theorem named_params_rewrite:
  "length (toTediousNamedParams sql) = length sql \<and>
   (\<forall>i < length sql.
      toTediousNamedParams sql ! i =
        (if sql ! i = 58 \<and> Suc i < length sql \<and> ident_start (sql ! Suc i) then 64 else sql ! i))"
  by (simp add: toTediousNamedParams_def replace_params colon_to_at_length colon_to_at_nth)

theorem named_params_rewrite_witness:
  "length (toTediousNamedParams (js ''a=:id,b='' @ [39] @ js '':x'' @ [39])) = 12 \<and>
   toTediousNamedParams (js ''a=:id,b='' @ [39] @ js '':x'' @ [39]) ! 2 = 64 \<and>
   toTediousNamedParams (js ''a=:id,b='' @ [39] @ js '':x'' @ [39]) ! 3 = 105 \<and>
   toTediousNamedParams (js ''a=:id,b='' @ [39] @ js '':x'' @ [39]) ! 9 = 64"
  using named_params_rewrite [of "js ''a=:id,b='' @ [39] @ js '':x'' @ [39]"]
  by (simp add: js_def ident_start_def is_upper_def is_lower_def)

section \<open>Properties of the limit injector\<close>

lemma leading_top_alt: "leading_top s \<longleftrightarrow> top_clause_at (dropWhile is_space s)"
  by (simp add: leading_top_def top_clause_at_def Let_def)

lemma exec_intro:
  "ms ic r (prev_after p pre, xs, None) \<noteq> [] \<Longrightarrow> exec ic r p (pre @ xs) \<noteq> None"
proof (induction pre arbitrary: p)
  case Nil
  then show ?case by (cases xs) (auto split: list.splits)
next
  case (Cons y ys)
  from Cons.prems have "ms ic r (prev_after (Some y) ys, xs, None) \<noteq> []" by simp
  from Cons.IH [OF this] show ?case by (auto split: list.splits)
qed

lemma in_classes_space: "in_classes [Space] = is_space"
  by (auto simp: in_classes_def fun_eq_iff)

lemma in_classes_digit: "in_classes [Digit] = is_digit"
  by (auto simp: in_classes_def fun_eq_iff)

lemma len_top: "length (js ''top'') = 3"
  by (simp add: js_def)

lemma canon_word: "is_word (canon x) \<longleftrightarrow> is_word x"
  by (auto simp: canon_def is_word_def is_upper_def is_lower_def is_digit_def)

lemma canon_space: "is_space x \<Longrightarrow> canon x = x"
  by (auto simp: canon_def is_space_def is_lower_def)

lemma space_not_word: "is_space x \<Longrightarrow> \<not> is_word x"
  by (auto simp: is_space_def is_word_def is_upper_def is_lower_def is_digit_def)

lemma ci_prefix_Cons:
  "ci_prefix (c # cs) xs \<longleftrightarrow> (\<exists>x xs'. xs = x # xs' \<and> canon x = canon c \<and> ci_prefix cs xs')"
  by (cases xs) (auto simp: ci_prefix_def)

lemma ci_prefix_select_word: "ci_prefix (js ''select'') xs \<Longrightarrow> word_next xs"
proof -
  assume "ci_prefix (js ''select'') xs"
  then obtain x xs' where xs: "xs = x # xs'" and c: "canon x = canon 115"
    by (auto simp: js_def ci_prefix_Cons)
  have "is_word (canon 115)" by (simp add: canon_def is_word_def is_upper_def is_lower_def is_digit_def)
  with c have "is_word x" by (metis canon_word)
  with xs show ?thesis by (simp add: word_next_def)
qed

lemma ms_Eps_fun: "ms ic Eps = (\<lambda>st. [st])"
  by (rule ext) simp

lemma star_space_hd:
  "\<exists>q rest. star_cls [Space] (p, xs, cap) = (q, dropWhile is_space xs, cap) # rest"
  using star_cls_hd [of "[Space]" p xs cap] by (auto simp: in_classes_space)

lemma has_top_at:
  assumes p: "\<not> word_before p" and tc: "top_clause_at xs"
  shows "ms True re_has_top (p, xs, None) \<noteq> []"
proof -
  from tc have sel: "ci_prefix (js ''select'') xs" by (simp add: top_clause_at_def)
  from tc obtain y b' where b: "drop 6 xs = y # b'" and y: "is_space y"
    by (auto simp: top_clause_at_def split: list.splits)
  have c: "dropWhile is_space (drop 6 xs) = dropWhile is_space b'"
    using b y by simp
  from tc c have top: "ci_prefix (js ''top'') (dropWhile is_space b')"
    by (simp add: top_clause_at_def)
  from tc have "case dropWhile is_space (drop 3 (dropWhile is_space (drop 6 xs))) of
      [] \<Rightarrow> False | x # _ \<Rightarrow> x = 40 \<or> is_digit x"
    by (simp add: top_clause_at_def)
  then have "case dropWhile is_space (drop 3 (dropWhile is_space b')) of
      [] \<Rightarrow> False | x # _ \<Rightarrow> x = 40 \<or> is_digit x"
    by (simp only: c)
  then obtain x d' where d: "dropWhile is_space (drop 3 (dropWhile is_space b')) = x # d'"
    and x: "x = 40 \<or> is_digit x"
    by (cases "dropWhile is_space (drop 3 (dropWhile is_space b'))") simp_all
  have s1: "ms True WordB (p, xs, None) = [(p, xs, None)]"
    using p ci_prefix_select_word [OF sel] by simp
  obtain p1 where s2: "ms True (lits (js ''select'')) (p, xs, None) = [(p1, y # b', None)]"
    using sel b by (simp add: ms_lits prefix_ic_ci len_select)
  have s3: "ms True (Cls [Space]) (p1, y # b', None) = [(Some y, b', None)]"
    using y by simp
  obtain p2 rest2 where s4:
    "star_cls [Space] (Some y, b', None) = (p2, dropWhile is_space b', None) # rest2"
    using star_space_hd by blast
  obtain p3 where s5: "ms True (lits (js ''top'')) (p2, dropWhile is_space b', None) =
      [(p3, drop 3 (dropWhile is_space b'), None)]"
    using top by (simp add: ms_lits prefix_ic_ci len_top)
  obtain p4 rest4 where s6:
    "star_cls [Space] (p3, drop 3 (dropWhile is_space b'), None) = (p4, x # d', None) # rest4"
    using star_space_hd [of p3 "drop 3 (dropWhile is_space b')" None] d by auto
  have s7: "ms True (Group (Alt (Lit 40) (Cls [Digit]))) (p4, x # d', None) \<noteq> []"
    using x by (auto simp: chr_eq_def)
  have r1: "ms True (seqs [Group (Alt (Lit 40) (Cls [Digit]))]) (p4, x # d', None) \<noteq> []"
    using s7 by (simp add: ms_Eps_fun concat_map_single del: ms.simps(9))
  have r2: "ms True (seqs [Star (Cls [Space]), Group (Alt (Lit 40) (Cls [Digit]))])
             (p3, drop 3 (dropWhile is_space b'), None) \<noteq> []"
    using r1 by (simp add: star_cls_eq s6 del: ms.simps(9))
  have r3: "ms True (seqs [lits (js ''top''), Star (Cls [Space]), Group (Alt (Lit 40) (Cls [Digit]))])
             (p2, dropWhile is_space b', None) \<noteq> []"
    using r2 s5 by (simp del: ms.simps(9))
  have r4: "ms True (seqs [rplus (Cls [Space]), lits (js ''top''), Star (Cls [Space]),
             Group (Alt (Lit 40) (Cls [Digit]))]) (p1, y # b', None) \<noteq> []"
    using r3 s3 by (simp add: rplus_def star_cls_eq s4 del: ms.simps(9))
  have r5: "ms True (seqs [lits (js ''select''), rplus (Cls [Space]), lits (js ''top''),
             Star (Cls [Space]), Group (Alt (Lit 40) (Cls [Digit]))]) (p, xs, None) \<noteq> []"
    using r4 s2 by (simp del: ms.simps(9))
  show ?thesis
    unfolding re_has_top_def using r5 s1 by (simp del: ms.simps(9))
qed


lemma star_cls_nonempty: "star_cls cs st \<noteq> []"
proof -
  obtain p xs cap where "st = (p, xs, cap)" by (cases st)
  with star_cls_hd [of cs p xs cap] show ?thesis by auto
qed

lemma star_cls_tail:
  "st \<in> set (tl (star_cls cs (p, xs, cap))) \<Longrightarrow>
   \<exists>y ys. fst (snd st) = y # ys \<and> in_classes cs y"
proof (induction xs arbitrary: p)
  case Nil
  then show ?case by simp
next
  case (Cons x xs)
  show ?case
  proof (cases "in_classes cs x")
    case False
    with Cons.prems show ?thesis by (simp add: in_classes_def)
  next
    case True
    with Cons.prems have "st \<in> set (tl (star_cls cs (Some x, xs, cap))) \<or> st = (p, x # xs, cap)"
      by (auto simp: in_classes_def star_cls_nonempty)
    with Cons.IH [of "Some x"] True show ?thesis by auto
  qed
qed

lemma concat_map_nil: "(\<And>x. x \<in> set xs \<Longrightarrow> f x = []) \<Longrightarrow> concat (map f xs) = []"
  by (induction xs) simp_all

lemma exec_Bol_None:
  "exec ic (Seq Bol r) None s =
     (case ms ic r (None, s, None) of [] \<Rightarrow> None | st # _ \<Rightarrow> Some ([], st))"
  by (cases s) (simp_all add: exec_Bol_later split: list.splits)

lemma select_not_at_space:
  assumes "fst (snd st) = y # ys" and "is_space y"
  shows "ms True (Seq (lits (js ''select'')) r) st = []"
proof -
  obtain p cap where st: "st = (p, y # ys, cap)" using assms(1) by (cases st) auto
  have "\<not> ci_prefix (js ''select'') (y # ys)"
  proof
    assume "ci_prefix (js ''select'') (y # ys)"
    then have "word_next (y # ys)" by (rule ci_prefix_select_word)
    with assms(2) show False by (simp add: word_next_def space_not_word)
  qed
  then show ?thesis by (simp add: st ms_lits prefix_ic_ci)
qed

lemma lead_body_match:
  assumes "ci_prefix (js ''select'') (dropWhile is_space s)"
    and "drop 6 (dropWhile is_space s) = y # b'" and "is_space y"
  shows "\<exists>q rest. ms True (seqs [Star (Cls [Space]), lits (js ''select''), rplus (Cls [Space])])
           (None, s, None) = (q, dropWhile is_space b', None) # rest"
proof -
  obtain q0 t where h: "star_cls [Space] (None, s, None) = (q0, dropWhile is_space s, None) # t"
    using star_space_hd by blast
  have t: "\<And>st. st \<in> set t \<Longrightarrow>
      ms True (seqs [lits (js ''select''), rplus (Cls [Space])]) st = []"
  proof -
    fix st assume "st \<in> set t"
    then have "st \<in> set (tl (star_cls [Space] (None, s, None)))" by (simp add: h)
    from star_cls_tail [OF this] obtain y ys where "fst (snd st) = y # ys" and "is_space y"
      by (auto simp: in_classes_space)
    then show "ms True (seqs [lits (js ''select''), rplus (Cls [Space])]) st = []"
      by (simp add: select_not_at_space del: ms.simps)
  qed
  obtain q1 where s2: "ms True (lits (js ''select'')) (q0, dropWhile is_space s, None) =
      [(q1, y # b', None)]"
    using assms(1,2) by (simp add: ms_lits prefix_ic_ci len_select)
  obtain q rest where s4:
    "star_cls [Space] (Some y, b', None) = (q, dropWhile is_space b', None) # rest"
    using star_space_hd by blast
  have "ms True (seqs [rplus (Cls [Space])]) (q1, y # b', None) =
        (q, dropWhile is_space b', None) # rest"
    using assms(3) by (simp add: rplus_def star_cls_eq s4 ms_Eps_fun concat_map_single)
  with s2 have "ms True (seqs [lits (js ''select''), rplus (Cls [Space])])
        (q0, dropWhile is_space s, None) = (q, dropWhile is_space b', None) # rest"
    by simp
  moreover have "ms True (seqs [Star (Cls [Space]), lits (js ''select''), rplus (Cls [Space])])
      (None, s, None) =
      ms True (seqs [lits (js ''select''), rplus (Cls [Space])]) (q0, dropWhile is_space s, None) @
      concat (map (ms True (seqs [lits (js ''select''), rplus (Cls [Space])])) t)"
    by (simp add: star_cls_eq h)
  ultimately show ?thesis
    using concat_map_nil [of t "ms True (seqs [lits (js ''select''), rplus (Cls [Space])])", OF t]
    by simp
qed

lemma lead_body_none:
  assumes "\<not> (ci_prefix (js ''select'') (dropWhile is_space s) \<and>
             (case drop 6 (dropWhile is_space s) of [] \<Rightarrow> False | y # _ \<Rightarrow> is_space y))"
  shows "ms True (seqs [Star (Cls [Space]), lits (js ''select''), rplus (Cls [Space])])
           (None, s, None) = []"
proof -
  obtain q0 t where h: "star_cls [Space] (None, s, None) = (q0, dropWhile is_space s, None) # t"
    using star_space_hd by blast
  have t: "\<And>st. st \<in> set t \<Longrightarrow>
      ms True (seqs [lits (js ''select''), rplus (Cls [Space])]) st = []"
  proof -
    fix st assume "st \<in> set t"
    then have "st \<in> set (tl (star_cls [Space] (None, s, None)))" by (simp add: h)
    from star_cls_tail [OF this] obtain y ys where "fst (snd st) = y # ys" and "is_space y"
      by (auto simp: in_classes_space)
    then show "ms True (seqs [lits (js ''select''), rplus (Cls [Space])]) st = []"
      by (simp add: select_not_at_space del: ms.simps)
  qed
  have "ms True (seqs [lits (js ''select''), rplus (Cls [Space])])
        (q0, dropWhile is_space s, None) = []"
    using assms
    by (auto simp: ms_lits prefix_ic_ci len_select rplus_def split: list.splits)
  moreover have "ms True (seqs [Star (Cls [Space]), lits (js ''select''), rplus (Cls [Space])])
      (None, s, None) =
      ms True (seqs [lits (js ''select''), rplus (Cls [Space])]) (q0, dropWhile is_space s, None) @
      concat (map (ms True (seqs [lits (js ''select''), rplus (Cls [Space])])) t)"
    by (simp add: star_cls_eq h)
  ultimately show ?thesis
    using concat_map_nil [of t "ms True (seqs [lits (js ''select''), rplus (Cls [Space])])", OF t]
    by simp
qed


lemma concat_map_single_comp: "concat (map ((\<lambda>x. [x]) \<circ> f) xs) = map f xs"
  by (induction xs) simp_all

lemma lead_exec_match:
  assumes "ci_prefix (js ''select'') (dropWhile is_space s)"
    and "drop 6 (dropWhile is_space s) = y # b'" and "is_space y"
  shows "\<exists>q. exec True re_lead None s =
           Some ([], (q, dropWhile is_space b',
                 Some (take (length s - length (dropWhile is_space b')) s)))"
proof -
  define G where "G = seqs [Star (Cls [Space]), lits (js ''select''), rplus (Cls [Space])]"
  define GRP :: "mstate \<Rightarrow> mstate"
    where "GRP = (\<lambda>(p', xs', _). (p', xs', Some (take (length s - length xs') s)))"
  from lead_body_match [OF assms] obtain q rest where
    m: "ms True G (None, s, None) = (q, dropWhile is_space b', None) # rest"
    unfolding G_def by blast
  have r: "re_lead = Seq Bol (Seq (Group G) Eps)"
    by (simp add: re_lead_def G_def)
  have "ms True (Seq (Group G) Eps) (None, s, None) = map GRP (ms True G (None, s, None))"
    by (simp add: ms_Eps_fun concat_map_single_comp GRP_def)
  then show ?thesis
    by (simp add: r exec_Bol_None m GRP_def)
qed

lemma lead_exec_none:
  assumes "\<not> (ci_prefix (js ''select'') (dropWhile is_space s) \<and>
             (case drop 6 (dropWhile is_space s) of [] \<Rightarrow> False | y # _ \<Rightarrow> is_space y))"
  shows "exec True re_lead None s = None"
proof -
  define G where "G = seqs [Star (Cls [Space]), lits (js ''select''), rplus (Cls [Space])]"
  define GRP :: "mstate \<Rightarrow> mstate"
    where "GRP = (\<lambda>(p', xs', _). (p', xs', Some (take (length s - length xs') s)))"
  from lead_body_none [OF assms] have m: "ms True G (None, s, None) = []"
    unfolding G_def .
  have r: "re_lead = Seq Bol (Seq (Group G) Eps)"
    by (simp add: re_lead_def G_def)
  have "ms True (Seq (Group G) Eps) (None, s, None) = map GRP (ms True G (None, s, None))"
    by (simp add: ms_Eps_fun concat_map_single_comp GRP_def)
  then show ?thesis
    by (simp add: r exec_Bol_None m GRP_def)
qed

lemma dropWhile_all: "\<forall>x \<in> set ws. P x \<Longrightarrow> dropWhile P (ws @ ys) = dropWhile P ys"
  by (induction ws) simp_all

lemma top_clause_after_inject:
  assumes sel: "ci_prefix (js ''select'') a" and b: "drop 6 a = y # b'" and y: "is_space y"
  shows "top_clause_at (take 6 a @ (y # takeWhile is_space b') @
           (js ''TOP('' @ ns @ js '') '') @ c)"
proof -
  from sel have "length (map canon (take 6 a)) = length (map canon (js ''select''))"
    by (simp only: ci_prefix_def len_select)
  then have l6: "length (take 6 a) = 6" by (simp add: len_select)
  let ?r = "take 6 a @ (y # takeWhile is_space b') @ (js ''TOP('' @ ns @ js '') '') @ c"
  have t6: "take 6 ?r = take 6 a" using l6 by simp
  have d6: "drop 6 ?r = (y # takeWhile is_space b') @ (js ''TOP('' @ ns @ js '') '') @ c"
    using l6 by simp
  have p: "ci_prefix (js ''select'') ?r"
    using sel t6 by (simp only: ci_prefix_def len_select)
  have "dropWhile is_space ((y # takeWhile is_space b') @ (js ''TOP('' @ ns @ js '') '') @ c) =
        dropWhile is_space ((js ''TOP('' @ ns @ js '') '') @ c)"
    by (rule dropWhile_all) (auto simp: y dest: set_takeWhileD)
  also have "\<dots> = (js ''TOP('' @ ns @ js '') '') @ c"
    by (simp add: js_def is_space_def)
  finally have dw: "dropWhile is_space (drop 6 ?r) = (js ''TOP('' @ ns @ js '') '') @ c"
    by (simp only: d6)
  have tp: "ci_prefix (js ''top'') ((js ''TOP('' @ ns @ js '') '') @ c)"
    by (simp add: ci_prefix_def js_def canon_def is_lower_def)
  have d3: "dropWhile is_space (drop 3 ((js ''TOP('' @ ns @ js '') '') @ c)) =
        40 # ns @ js '') '' @ c"
    by (simp add: js_def is_space_def)
  have s6: "case drop 6 ?r of [] \<Rightarrow> False | y # _ \<Rightarrow> is_space y"
    by (simp only: d6) (simp add: y)
  show ?thesis
    unfolding top_clause_at_def dw d3 using p tp s6 by simp
qed


lemma prev_after_spaces:
  "\<forall>x \<in> set w. is_space x \<Longrightarrow> \<not> word_before (prev_after None w)"
proof (cases "w = []")
  case True
  then show ?thesis by (simp add: word_before_def)
next
  case False
  assume "\<forall>x \<in> set w. is_space x"
  with False have "is_space (last w)" by simp
  with False show ?thesis by (simp add: prev_after_def word_before_def space_not_word)
qed

lemma has_top_behind_spaces:
  assumes "\<forall>x \<in> set w. is_space x" and "top_clause_at xs"
  shows "test True re_has_top (w @ xs)"
proof -
  from has_top_at [OF prev_after_spaces [OF assms(1)] assms(2)]
  have "ms True re_has_top (prev_after None w, xs, None) \<noteq> []" .
  from exec_intro [OF this] show ?thesis by (simp add: test_def)
qed

lemma has_top_leading: "leading_top s \<Longrightarrow> test True re_has_top s"
proof -
  assume "leading_top s"
  then have "top_clause_at (dropWhile is_space s)" by (simp only: leading_top_alt)
  moreover have "\<forall>x \<in> set (takeWhile is_space s). is_space x"
    by (auto dest: set_takeWhileD)
  ultimately have "test True re_has_top (takeWhile is_space s @ dropWhile is_space s)"
    by (rule has_top_behind_spaces [rotated])
  then show ?thesis by simp
qed

lemma inject_shape:
  assumes noTop: "\<not> test True re_has_top sql"
    and sel: "ci_prefix (js ''select'') (dropWhile is_space sql)"
    and b: "drop 6 (dropWhile is_space sql) = y # b'" and y: "is_space y"
  shows "injectTopLimit sql n =
           takeWhile is_space sql @
           (take 6 (dropWhile is_space sql) @ (y # takeWhile is_space b') @
            (js ''TOP('' @ num_to_string n @ js '') '') @ dropWhile is_space b')"
proof -
  let ?a = "dropWhile is_space sql"
  let ?c = "dropWhile is_space b'"
  let ?g = "takeWhile is_space sql @ take 6 ?a @ (y # takeWhile is_space b')"
  have "sql = takeWhile is_space sql @ ?a" by simp
  also have "?a = take 6 ?a @ drop 6 ?a" by simp
  also have "drop 6 ?a = y # takeWhile is_space b' @ ?c" by (simp add: b)
  finally have decomp: "sql = ?g @ ?c" by simp
  then have "length sql - length ?c = length ?g"
    by (metis add_diff_cancel_right' length_append)
  with decomp have g: "take (length sql - length ?c) sql = ?g"
    by (metis append_eq_conv_conj)
  from lead_exec_match [OF sel b y] obtain q where
    "exec True re_lead None sql = Some ([], (q, ?c, Some (take (length sql - length ?c) sql)))"
    by blast
  with noTop g show ?thesis
    by (simp add: injectTopLimit_def replace_first_def cap_text_def)
qed

lemma inject_twice: "injectTopLimit (injectTopLimit sql n) n = injectTopLimit sql n"
proof (cases "test True re_has_top sql")
  case True
  then show ?thesis by (simp add: injectTopLimit_def)
next
  case noTop: False
  let ?a = "dropWhile is_space sql"
  show ?thesis
  proof (cases "ci_prefix (js ''select'') ?a \<and>
      (case drop 6 ?a of [] \<Rightarrow> False | y # _ \<Rightarrow> is_space y)")
    case False
    from lead_exec_none [OF False] noTop have "injectTopLimit sql n = sql"
      by (simp add: injectTopLimit_def replace_first_def)
    then show ?thesis by simp
  next
    case True
    then obtain y b' where sel: "ci_prefix (js ''select'') ?a"
      and b: "drop 6 ?a = y # b'" and y: "is_space y"
      by (auto split: list.splits)
    have "test True re_has_top (injectTopLimit sql n)"
      unfolding inject_shape [OF noTop sel b y]
      by (rule has_top_behind_spaces [OF _ top_clause_after_inject [OF sel b y]])
         (auto dest: set_takeWhileD)
    then show ?thesis by (simp add: injectTopLimit_def)
  qed
qed

text \<open>
  C7: applying the limit injector twice gives the text of applying it once, for every text
  and every limit; and a text in which a row-limiting clause (TOP with a parenthesis or a
  number) directly follows the leading SELECT keyword is returned unchanged.
\<close>

theorem inject_idempotent:
  "injectTopLimit (injectTopLimit sql n) n = injectTopLimit sql n \<and>
   (leading_top sql \<longrightarrow> injectTopLimit sql n = sql)"
proof
  show "injectTopLimit (injectTopLimit sql n) n = injectTopLimit sql n"
    by (rule inject_twice)
  show "leading_top sql \<longrightarrow> injectTopLimit sql n = sql"
    by (simp add: has_top_leading injectTopLimit_def)
qed

theorem inject_idempotent_witness:
  "leading_top (js ''SELECT TOP(5) * FROM vwUsers'') \<and>
   injectTopLimit (js ''SELECT TOP(5) * FROM vwUsers'') (Fin 200) =
     js ''SELECT TOP(5) * FROM vwUsers'' \<and>
   injectTopLimit (js ''SELECT * FROM t'') (Fin 10) = js ''SELECT TOP(10) * FROM t'' \<and>
   injectTopLimit (js ''SELECT TOP(10) * FROM t'') (Fin 10) = js ''SELECT TOP(10) * FROM t''"
proof -
  have l: "leading_top (js ''SELECT TOP(5) * FROM vwUsers'')"
    by (simp add: leading_top_def ci_prefix_def canon_def is_lower_def is_space_def is_digit_def
        js_def)
  have i: "injectTopLimit (js ''SELECT * FROM t'') (Fin 10) = js ''SELECT TOP(10) * FROM t''"
    by (simp add: injectTopLimit_def re_has_top_def re_lead_def replace_first_def cap_text_def
        int_to_string_def nat_digits.simps engine_eval)
  from inject_idempotent [of "js ''SELECT TOP(5) * FROM vwUsers''" "Fin 200"] l
  have a: "injectTopLimit (js ''SELECT TOP(5) * FROM vwUsers'') (Fin 200) =
     js ''SELECT TOP(5) * FROM vwUsers''" by blast
  from inject_idempotent [of "js ''SELECT * FROM t''" "Fin 10"]
  have "injectTopLimit (injectTopLimit (js ''SELECT * FROM t'') (Fin 10)) (Fin 10) =
     injectTopLimit (js ''SELECT * FROM t'') (Fin 10)" by blast
  then have b: "injectTopLimit (js ''SELECT TOP(10) * FROM t'') (Fin 10) = js ''SELECT TOP(10) * FROM t''"
    by (simp only: i)
  from l a i b show ?thesis by blast
qed

section \<open>Properties of the validator: banned tokens\<close>

subsection \<open>Trimming keeps what is not white space\<close>




subsection \<open>Markers\<close>






subsection \<open>Keywords\<close>


lemma ci_prefix_length: "ci_prefix w xs \<Longrightarrow> length w \<le> length xs"
proof -
  assume "ci_prefix w xs"
  then have "length (map canon (take (length w) xs)) = length (map canon w)"
    by (simp only: ci_prefix_def)
  then show ?thesis by simp
qed










subsection \<open>The banned pattern finds them\<close>














section \<open>The normal paths of the limit and of its injection\<close>

text \<open>
  Where no TOP clause follows any SELECT keyword of a validated statement, the injector
  puts one behind the leading SELECT.
\<close>

lemma inject_adds_clause:
  assumes noTop: "\<not> test True re_has_top sql"
    and sel: "ci_prefix (js ''select'') (dropWhile is_space sql)"
    and b: "drop 6 (dropWhile is_space sql) = y # b'" and y: "is_space y"
  shows "leading_top (injectTopLimit sql n)"
proof -
  let ?x = "take 6 (dropWhile is_space sql) @ (y # takeWhile is_space b') @
            (js ''TOP('' @ num_to_string n @ js '') '') @ dropWhile is_space b'"
  have tc: "top_clause_at ?x" by (rule top_clause_after_inject [OF sel b y])
  then have "ci_prefix (js ''select'') ?x" by (simp only: top_clause_at_def)
  then have "word_next ?x" by (rule ci_prefix_select_word)
  then obtain x0 xs0 where x: "?x = x0 # xs0" and w: "is_word x0"
    by (cases ?x) (simp_all add: word_next_def)
  from w have "\<not> is_space x0" using space_not_word by blast
  then have "dropWhile is_space ?x = ?x" by (simp only: x) simp
  moreover have "dropWhile is_space (takeWhile is_space sql @ ?x) = dropWhile is_space ?x"
    by (rule dropWhile_all) (auto dest: set_takeWhileD)
  ultimately have "dropWhile is_space (takeWhile is_space sql @ ?x) = ?x" by simp
  with tc show ?thesis
    by (simp only: leading_top_alt inject_shape [OF assms])
qed

lemma validated_gets_clause:
  assumes "validateSelectOnly sql = Inr s" and "\<not> test True re_has_top s"
  shows "leading_top (injectTopLimit s n)"
proof -
  from assms(1) have st: "starts_select_space s"
    by (auto simp: validateSelectOnly_def Let_def test_re_select split: if_splits)
  then have sel: "ci_prefix (js ''select'') s" by (simp add: starts_select_space_def)
  then have "word_next s" by (rule ci_prefix_select_word)
  then obtain x0 xs0 where s: "s = x0 # xs0" and w: "is_word x0"
    by (cases s) (simp_all add: word_next_def)
  from w have "\<not> is_space x0" using space_not_word by blast
  then have d: "dropWhile is_space s = s" by (simp add: s)
  from st obtain y b' where b: "drop 6 s = y # b'" and y: "is_space y"
    by (auto simp: starts_select_space_def split: list.splits)
  show ?thesis
    using inject_adds_clause [OF assms(2), of y b' n] sel b y by (simp only: d)
qed

text \<open>
  For a row limit that is a non-zero integral Number below \<open>10^21\<close> in magnitude the
  effective limit is that number clamped into \<open>[1, 5000]\<close>; without a row limit and without
  the environment variable it is 200.
\<close>

lemma digit_not_space: "is_digit c \<Longrightarrow> \<not> is_space c"
  by (auto simp: is_digit_def is_space_def)

lemma nat_digits_digits: "nat_digits n \<noteq> [] \<and> (\<forall>c \<in> set (nat_digits n). is_digit c)"
proof (induction n rule: nat_digits.induct)
  case (1 n)
  show ?case
  proof (cases "n < 10")
    case True
    then show ?thesis by (simp add: nat_digits.simps [of n] is_digit_def)
  next
    case False
    have "n mod 10 < 10" by simp
    then have "is_digit (48 + n mod 10)" by (simp add: is_digit_def)
    with False 1 show ?thesis by (simp add: nat_digits.simps [of n])
  qed
qed

lemma digits_value_snoc: "digits_value (xs @ [d]) = 10 * digits_value xs + (int d - 48)"
  by (simp add: digits_value_def)

lemma digits_value_nat_digits: "digits_value (nat_digits n) = int n"
proof (induction n rule: nat_digits.induct)
  case (1 n)
  show ?case
  proof (cases "n < 10")
    case True
    then show ?thesis by (simp add: nat_digits.simps [of n] digits_value_def)
  next
    case False
    with 1 have "digits_value (nat_digits (n div 10)) = int (n div 10)" by simp
    with False show ?thesis
      by (simp add: nat_digits.simps [of n] digits_value_snoc zdiv_int zmod_int)
  qed
qed

lemma parseInt_digits:
  assumes "z \<noteq> []" and "\<forall>x \<in> set z. is_digit x"
  shows "parseInt_str z = Fin (of_int (digits_value z))"
    and "parseInt_str (45 # z) = Fin (of_int (- digits_value z))"
proof -
  from assms obtain c cs where z: "z = c # cs" and c: "is_digit c" by (cases z) auto
  from c have ns: "\<not> is_space c" by (rule digit_not_space)
  from c have sign: "c \<noteq> 45" "c \<noteq> 43" by (auto simp: is_digit_def)
  have dw: "dropWhile is_space z = z" using ns by (simp add: z)
  have tw: "takeWhile is_digit z = z" using assms(2) by (simp add: takeWhile_eq_all_conv)
  have h: "hd z = c" "tl z = cs" by (simp_all add: z)
  show "parseInt_str z = Fin (of_int (digits_value z))"
    using assms(1) sign by (simp add: parseInt_str_def Let_def dw tw h)
  have ns45: "\<not> is_space 45" by (simp add: is_space_def)
  show "parseInt_str (45 # z) = Fin (of_int (- digits_value z))"
    using assms(1) ns45 by (simp add: parseInt_str_def Let_def tw)
qed

lemma parseInt_int_to_string: "parseInt_str (int_to_string k) = Fin (of_int k)"
proof (cases "k < 0")
  case True
  then show ?thesis
    using parseInt_digits(2) [of "nat_digits (nat (- k))"] nat_digits_digits [of "nat (- k)"]
    by (simp add: int_to_string_def digits_value_nat_digits)
next
  case False
  then show ?thesis
    using parseInt_digits(1) [of "nat_digits (nat k)"] nat_digits_digits [of "nat k"]
    by (simp add: int_to_string_def digits_value_nat_digits)
qed

lemma limit_of_integer:
  assumes "k \<noteq> 0" and "\<bar>k\<bar> < 10 ^ 21"
  shows "effective_limit env (JNum (Fin (of_int k))) = Fin (of_int (max 1 (min k 5000)))"
proof -
  from assms(2) have "\<bar>rat_of_int k\<bar> < 10 ^ 21"
    by (metis of_int_abs of_int_less_iff of_int_numeral of_int_power)
  then have "to_string (JNum (Fin (of_int k))) = int_to_string k" by simp
  then have "parseInt (JNum (Fin (of_int k))) = Fin (of_int k)"
    by (simp only: parseInt_def parseInt_int_to_string)
  moreover have "js_or (JNum (Fin (of_int k))) d = JNum (Fin (of_int k))" for d
    using assms(1) by (simp add: js_or_def)
  ultimately show ?thesis
    by (simp add: effective_limit_def math_min_def math_max_def min_def max_def)
qed

lemma default_200: "ROW_LIMIT_DEFAULT None = Fin 200"
  by (simp add: ROW_LIMIT_DEFAULT_def js_or_def parseInt_def parseInt_str_def
      is_space_def is_digit_def digits_value_def js_def)

lemma limit_default: "effective_limit None JUndefined = Fin 200"
proof -
  have "parseInt (JNum (Fin 200)) = Fin (of_int 200)"
    unfolding parseInt_def using parseInt_int_to_string [of 200] by simp
  then show ?thesis
    by (simp add: effective_limit_def default_200 js_or_def math_min_def math_max_def)
qed

end
